theory Spec2Isabelle
  imports Complex_Main "HOL-Library.AList"
begin

section \<open>Python exceptions\<close>

text \<open>
  Every exception the modelled code can raise is a value. \<open>ClientError\<close> stands for any
  exception raised inside a third-party collaborator (the Materials Project client, the
  file decoder); it carries the collaborator's message.
\<close>

datatype py_error =
    AssertionError
  | AttributeError
  | KeyError
  | ValueError
  | OverflowError
  | ClientError string

section \<open>ffonons/dbs/mp.py: the cached download of a phonon document\<close>

text \<open>
  \<open>get_mp_ph_docs\<close> returns, as its first component, either the object the Materials
  Project client hands out (a \<open>PhononBSDOSDoc\<close>) or what \<open>json.load\<close> reads from the
  cache file (a plain JSON value). Python keeps the two apart by their run-time type, so the
  model keeps them apart by constructor.
\<close>

datatype ('d, 'j) phonon_doc = PhononBSDOSDoc 'd | JsonValue 'j

text \<open>
  The client \<open>MPRester\<close>: the structure lookup (of which the code only reads
  \<open>struct.formula\<close>) and the phonon download. Either call may raise.
\<close>

record 'd mp_rester =
  get_structure_by_material_id :: "string \<Rightarrow> py_error + string"
  get_data_by_id :: "string \<Rightarrow> py_error + 'd"

text \<open>
  \<open>json.dump(doc, file, cls=MontyEncoder)\<close> and \<open>json.load(file)\<close>, both third-party.
  The \<open>.xz\<close> compression that \<open>zopen\<close> adds is lossless, so a file is modelled by the
  JSON text it holds.
\<close>

record ('d, 'j) json_codec =
  json_dump :: "'d \<Rightarrow> string"
  json_load :: "string \<Rightarrow> py_error + 'j"

datatype api_call = StructureLookup string | PhononFetch string

text \<open>
  The state the function works on: the regular files on disk (path to content) and the log
  of calls made to the external client, oldest first.
\<close>

record world =
  files :: "string \<rightharpoonup> string"
  api_calls :: "api_call list"

text \<open>\<open>os.path.isfile\<close> followed by reading: the empty path never names a file.\<close>

definition read_file :: "world \<Rightarrow> string \<Rightarrow> string option" where
  "read_file w p = (if p = [] then None else files w p)"

definition isfile :: "world \<Rightarrow> string \<Rightarrow> bool" where
  "isfile w p = (read_file w p \<noteq> None)"

definition log_call :: "api_call \<Rightarrow> world \<Rightarrow> world" where
  "log_call c w = w\<lparr>api_calls := api_calls w @ [c]\<rparr>"

definition write_file :: "string \<Rightarrow> string \<Rightarrow> world \<Rightarrow> world" where
  "write_file p txt w = w\<lparr>files := (files w)(p \<mapsto> txt)\<rparr>"

text \<open>\<open>f"{mp_id}-{struct.formula.replace(' ', '')}"\<close>\<close>

definition id_formula :: "string \<Rightarrow> string \<Rightarrow> string" where
  "id_formula mp_id formula = mp_id @ ''-'' @ filter (\<lambda>c. c \<noteq> CHR '' '') formula"

text \<open>\<open>f"{docs_dir}/{id_formula}.json.xz" if docs_dir else ""\<close>\<close>

definition mp_ph_doc_path :: "string \<Rightarrow> string \<Rightarrow> string" where
  "mp_ph_doc_path docs_dir idf =
     (if docs_dir \<noteq> [] then docs_dir @ ''/'' @ idf @ ''.json.xz'' else [])"

text \<open>
  The function itself, lines 34 to 49. Building the client on line 34 and opening the
  cache file for writing are taken to succeed (an API key is configured; the directory
  \<open>docs_dir\<close> exists and is writable). The client answers the same question the same
  way each time it is asked.
\<close>

definition get_mp_ph_docs ::
  "'d mp_rester \<Rightarrow> ('d, 'j) json_codec \<Rightarrow> string \<Rightarrow> string \<Rightarrow> world
     \<Rightarrow> (py_error + ('d, 'j) phonon_doc \<times> string) \<times> world" where
  "get_mp_ph_docs mp_rester codec mp_id docs_dir w =
     (let w1 = log_call (StructureLookup mp_id) w in
      case get_structure_by_material_id mp_rester mp_id of
        Inl e \<Rightarrow> (Inl e, w1)
      | Inr formula \<Rightarrow>
          (let path = mp_ph_doc_path docs_dir (id_formula mp_id formula) in
           case read_file w1 path of
             Some txt \<Rightarrow>
               (case json_load codec txt of
                  Inl e \<Rightarrow> (Inl e, w1)
                | Inr j \<Rightarrow> (Inr (JsonValue j, path), w1))
           | None \<Rightarrow>
               (let w2 = log_call (PhononFetch mp_id) w1 in
                case get_data_by_id mp_rester mp_id of
                  Inl e \<Rightarrow> (Inl e, w2)
                | Inr doc \<Rightarrow>
                    (Inr (PhononBSDOSDoc doc, path),
                     if path \<noteq> [] then write_file path (json_dump codec doc) w2 else w2))))"

section \<open>ffonons/phonon.py, lines 162 to 183: loading and grouping the stored documents\<close>

subsection \<open>\<open>re.search\<close> for the patterns the script uses\<close>

text \<open>
  The script's regular expression is built from literal characters, \<open>.\<close>, the greedy
  \<open>.*\<close> and capture groups. \<open>Mark\<close> records the current position: a group is a pair of
  marks. \<open>rx_match\<close> is Python's backtracking matcher at one start position: \<open>.*\<close> first
  takes one more character (any but the newline) and gives it back only when the rest
  fails. It returns the marks of the first match found, in pattern order.
\<close>

datatype rx = Chr char | AnyChar | StarAny | Mark

fun rx_match :: "rx list \<Rightarrow> string \<Rightarrow> nat \<Rightarrow> nat list \<Rightarrow> nat list option" where
  "rx_match [] s i ms = Some (rev ms)"
| "rx_match (Chr c # ts) [] i ms = None"
| "rx_match (Chr c # ts) (x # xs) i ms = (if x = c then rx_match ts xs (Suc i) ms else None)"
| "rx_match (AnyChar # ts) [] i ms = None"
| "rx_match (AnyChar # ts) (x # xs) i ms =
     (if x \<noteq> CHR 0x0A then rx_match ts xs (Suc i) ms else None)"
| "rx_match (Mark # ts) s i ms = rx_match ts s i (i # ms)"
| "rx_match (StarAny # ts) [] i ms = rx_match ts [] i ms"
| "rx_match (StarAny # ts) (x # xs) i ms =
     (if x \<noteq> CHR 0x0A
      then (case rx_match (StarAny # ts) xs (Suc i) ms of
              Some r \<Rightarrow> Some r
            | None \<Rightarrow> rx_match ts (x # xs) i ms)
      else rx_match ts (x # xs) i ms)"

text \<open>\<open>re.search\<close>: the leftmost start position at which the pattern matches.\<close>

fun rx_search :: "rx list \<Rightarrow> string \<Rightarrow> nat \<Rightarrow> nat list option" where
  "rx_search ts [] i = rx_match ts [] i []"
| "rx_search ts (x # xs) i =
     (case rx_match ts (x # xs) i [] of
        Some r \<Rightarrow> Some r
      | None \<Rightarrow> rx_search ts xs (Suc i))"

definition substring :: "string \<Rightarrow> nat \<Rightarrow> nat \<Rightarrow> string" where
  "substring s b e = take (e - b) (drop b s)"

text \<open>\<open>r".*/(mp-.*)-(.*)/phonon-bs-dos-(.*).json.gz"\<close>\<close>

definition key_pattern :: "rx list" where
  "key_pattern =
     [StarAny, Chr CHR ''/'', Mark] @ map Chr ''mp-'' @ [StarAny, Mark, Chr CHR ''-'',
      Mark, StarAny, Mark] @ map Chr ''/phonon-bs-dos-'' @ [Mark, StarAny, Mark, AnyChar]
      @ map Chr ''json'' @ [AnyChar] @ map Chr ''gz''"

text \<open>
  \<open>re.search(...)\<close> on a path: \<open>None\<close> when nothing matches, else the three groups
  \<open>(mp_id, formula, model)\<close>.
\<close>

definition search_key :: "string \<Rightarrow> (string \<times> string \<times> string) option" where
  "search_key path =
     (case rx_search key_pattern path 0 of
        Some [b1, e1, b2, e2, b3, e3] \<Rightarrow>
          Some (substring path b1 e1, substring path b2 e2, substring path b3 e3)
      | _ \<Rightarrow> None)"

subsection \<open>\<open>glob\<close> for the script's pattern\<close>

text \<open>
  \<open>glob(f"{FIGS_DIR}/**/phonon-bs-dos-*.json.gz")\<close> is called without \<open>recursive=True\<close>, so
  \<open>**\<close> is an ordinary \<open>*\<close>: it stands for one directory level and skips names that start
  with a dot. The storage root is given by the entries two levels below it, as pairs of a
  directory name and an entry name, in the order the file system lists them. \<open>FIGS_DIR\<close>
  is a constant of the package and a parameter here; it holds no wildcard.
\<close>

definition fnmatch_star :: "string \<Rightarrow> string \<Rightarrow> string \<Rightarrow> bool" where
  "fnmatch_star pre suf name =
     (length pre + length suf \<le> length name \<and> take (length pre) name = pre
      \<and> drop (length name - length suf) name = suf)"

definition ishidden :: "string \<Rightarrow> bool" where
  "ishidden name = (case name of [] \<Rightarrow> False | c # _ \<Rightarrow> c = CHR ''.'')"

definition glob_selects :: "string \<times> string \<Rightarrow> bool" where
  "glob_selects e =
     (\<not> ishidden (fst e) \<and> fnmatch_star ''phonon-bs-dos-'' ''.json.gz'' (snd e))"

definition entry_path :: "string \<Rightarrow> string \<times> string \<Rightarrow> string" where
  "entry_path figs_dir e = figs_dir @ ''/'' @ fst e @ ''/'' @ snd e"

definition glob_docs :: "string \<Rightarrow> (string \<times> string) list \<Rightarrow> string list" where
  "glob_docs figs_dir listing = map (entry_path figs_dir) (filter glob_selects listing)"

subsection \<open>The loading loop\<close>

text \<open>
  A stored document: what the file decodes to (the DOS and the band structure, built by
  the parameter \<open>read_doc\<close>, which stands for \<open>gzip.open\<close>, \<open>json.load\<close> and the two
  \<open>from_dict\<close> calls), extended by line 176 with the formula and the material id.
\<close>

record 'p doc_dict =
  phonon_data :: 'p
  formula_key :: string
  id_key :: string

text \<open>
  Python dictionaries keep insertion order, and assigning to an existing key keeps its
  place: association lists with \<open>AList.update\<close>. \<open>all_docs\<close> is a \<open>defaultdict(dict)\<close>:
  reading a missing material creates an empty inner dictionary.
\<close>

type_synonym 'p all_docs = "(string \<times> (string \<times> 'p doc_dict) list) list"

definition store_doc :: "string \<Rightarrow> string \<Rightarrow> 'p doc_dict \<Rightarrow> 'p all_docs \<Rightarrow> 'p all_docs" where
  "store_doc mp_id model d all_docs =
     AList.update mp_id
       (AList.update model d (case map_of all_docs mp_id of None \<Rightarrow> [] | Some v \<Rightarrow> v))
       all_docs"

definition startswith :: "string \<Rightarrow> string \<Rightarrow> bool" where
  "startswith s pre = (take (length pre) s = pre)"

text \<open>
  The loop body, lines 165 to 176. \<open>re.search(...).groups()\<close> on a path that does not match
  calls \<open>groups\<close> on \<open>None\<close>: an \<open>AttributeError\<close>.
\<close>

fun load_docs :: "(string \<Rightarrow> py_error + 'p) \<Rightarrow> string list \<Rightarrow> 'p all_docs
    \<Rightarrow> py_error + 'p all_docs" where
  "load_docs read_doc [] all_docs = Inr all_docs"
| "load_docs read_doc (phonon_doc # rest) all_docs =
     (case read_doc phonon_doc of
        Inl e \<Rightarrow> Inl e
      | Inr p \<Rightarrow>
          (case search_key phonon_doc of
             None \<Rightarrow> Inl AttributeError
           | Some (mp_id, formula, model) \<Rightarrow>
               if \<not> startswith mp_id ''mp-'' then Inl AssertionError
               else load_docs read_doc rest
                      (store_doc mp_id model
                         \<lparr>phonon_data = p, formula_key = formula, id_key = mp_id\<rparr> all_docs)))"

definition load_all_docs :: "(string \<Rightarrow> py_error + 'p) \<Rightarrow> string \<Rightarrow> (string \<times> string) list
    \<Rightarrow> py_error + 'p all_docs" where
  "load_all_docs read_doc figs_dir listing = load_docs read_doc (glob_docs figs_dir listing) []"

subsection \<open>Coverage\<close>

text \<open>
  Lines 182 and 183 are the same comprehension at 2 and at 3:
  \<open>[k for k, v in all_docs.items() if len(v) == n]\<close>.
\<close>

definition materials_with :: "nat \<Rightarrow> 'p all_docs \<Rightarrow> string list" where
  "materials_with n all_docs = map fst (filter (\<lambda>kv. length (snd kv) = n) all_docs)"

definition materials_with_2 :: "'p all_docs \<Rightarrow> string list" where
  "materials_with_2 all_docs = materials_with 2 all_docs"

definition materials_with_3 :: "'p all_docs \<Rightarrow> string list" where
  "materials_with_3 all_docs = materials_with 3 all_docs"

section \<open>scripts/analysis/metrics_table.py\<close>

subsection \<open>Floating-point values\<close>

text \<open>
  A NumPy float is a finite number, \<open>nan\<close> or an infinity. Finite values are real numbers
  here: rounding, overflow and the sign of zero are not modelled. Division never raises;
  it yields \<open>nan\<close> for \<open>0/0\<close> and an infinity for \<open>x/0\<close>.
\<close>

datatype npfloat = Fin real | NaN | PInf | NInf

definition signed_inf :: "real \<Rightarrow> npfloat" where
  "signed_inf s = (if 0 < s then PInf else if s < 0 then NInf else NaN)"

fun np_sign :: "npfloat \<Rightarrow> real" where
  "np_sign (Fin x) = sgn x"
| "np_sign PInf = 1"
| "np_sign NInf = - 1"
| "np_sign NaN = 0"

fun np_mul :: "npfloat \<Rightarrow> npfloat \<Rightarrow> npfloat" where
  "np_mul NaN b = NaN"
| "np_mul a NaN = NaN"
| "np_mul (Fin x) (Fin y) = Fin (x * y)"
| "np_mul a b = signed_inf (np_sign a * np_sign b)"

fun np_add :: "npfloat \<Rightarrow> npfloat \<Rightarrow> npfloat" where
  "np_add NaN b = NaN"
| "np_add a NaN = NaN"
| "np_add (Fin x) (Fin y) = Fin (x + y)"
| "np_add PInf NInf = NaN"
| "np_add NInf PInf = NaN"
| "np_add PInf b = PInf"
| "np_add a PInf = PInf"
| "np_add NInf b = NInf"
| "np_add a NInf = NInf"

fun np_div :: "npfloat \<Rightarrow> npfloat \<Rightarrow> npfloat" where
  "np_div NaN b = NaN"
| "np_div a NaN = NaN"
| "np_div (Fin x) (Fin y) = (if y \<noteq> 0 then Fin (x / y) else signed_inf (sgn x))"
| "np_div (Fin x) b = Fin 0"
| "np_div a (Fin y) = signed_inf (np_sign a * (if 0 \<le> y then 1 else - 1))"
| "np_div a b = NaN"

subsection \<open>\<open>sklearn.metrics.confusion_matrix\<close> on boolean vectors\<close>

text \<open>
  The matrix has one row and one column for every label that occurs in \<open>y_true\<close> or in
  \<open>y_pred\<close>, \<open>False\<close> before \<open>True\<close>; entry \<open>(t, p)\<close> counts the samples with true label
  \<open>t\<close> and predicted label \<open>p\<close>. Normalising divides by the row sums (\<open>"true"\<close>), the
  column sums (\<open>"pred"\<close>) or the total (\<open>"all"\<close>) with floating-point errors ignored,
  and \<open>np.nan_to_num\<close> then replaces \<open>nan\<close> by 0 and an infinity by the largest float.
  Vectors of different lengths raise \<open>ValueError\<close>.
\<close>

datatype normalize = NormTrue | NormPred | NormAll | NormNone

definition unique_labels :: "bool list \<Rightarrow> bool list \<Rightarrow> bool list" where
  "unique_labels y_true y_pred = filter (\<lambda>l. l \<in> set y_true \<union> set y_pred) [False, True]"

definition count_pairs :: "bool list \<Rightarrow> bool list \<Rightarrow> bool \<Rightarrow> bool \<Rightarrow> nat" where
  "count_pairs y_true y_pred t p = length (filter (\<lambda>tp. tp = (t, p)) (zip y_true y_pred))"

definition raw_confusion :: "bool list \<Rightarrow> bool list \<Rightarrow> real list list" where
  "raw_confusion y_true y_pred =
     (let labels = unique_labels y_true y_pred
      in map (\<lambda>t. map (\<lambda>p. real (count_pairs y_true y_pred t p)) labels) labels)"

definition float_max :: real where
  "float_max = (2 - 1 / 2 ^ 52) * 2 ^ 1023"

fun nan_to_num :: "npfloat \<Rightarrow> real" where
  "nan_to_num (Fin x) = x"
| "nan_to_num NaN = 0"
| "nan_to_num PInf = float_max"
| "nan_to_num NInf = - float_max"

definition divide_entries :: "real list \<Rightarrow> real list \<Rightarrow> real list" where
  "divide_entries row totals =
     map (\<lambda>xs. nan_to_num (np_div (Fin (fst xs)) (Fin (snd xs)))) (zip row totals)"

definition normalize_cm :: "normalize \<Rightarrow> real list list \<Rightarrow> real list list" where
  "normalize_cm mode cm =
     (case mode of
        NormTrue \<Rightarrow> map (\<lambda>row. divide_entries row (map (\<lambda>_. sum_list row) row)) cm
      | NormPred \<Rightarrow> map (\<lambda>row. divide_entries row (map sum_list (transpose cm))) cm
      | NormAll \<Rightarrow> map (\<lambda>row. divide_entries row (map (\<lambda>_. sum_list (concat cm)) row)) cm
      | NormNone \<Rightarrow> cm)"

definition confusion_matrix :: "normalize \<Rightarrow> bool list \<Rightarrow> bool list
    \<Rightarrow> py_error + real list list" where
  "confusion_matrix mode y_true y_pred =
     (if length y_true \<noteq> length y_pred then Inl ValueError
      else Inr (normalize_cm mode (raw_confusion y_true y_pred)))"

text \<open>\<open>sklearn.metrics.accuracy_score\<close>: the share of samples predicted right.\<close>

definition accuracy_score :: "bool list \<Rightarrow> bool list \<Rightarrow> real" where
  "accuracy_score y_true y_pred =
     real (length (filter (\<lambda>tp. fst tp = snd tp) (zip y_true y_pred))) / real (length y_true)"

subsection \<open>The classification loop body, lines 94 to 111\<close>

text \<open>
  Lines 95 to 106: the matrix, its unpacking \<open>(tn, fp), (fn, tp) = conf_mat\<close>, which raises
  \<open>ValueError\<close> unless the matrix is 2 by 2, and the assertions on the normalised
  entries (Python runs \<open>assert\<close> statements unless started with \<open>-O\<close>). The script
  fixes \<open>normalize = "true"\<close> on line 94.
\<close>

definition sums_to_one :: "normalize \<Rightarrow> real \<Rightarrow> real \<Rightarrow> real \<Rightarrow> real \<Rightarrow> bool" where
  "sums_to_one mode tn fp fn tp =
     (case mode of
        NormTrue \<Rightarrow> tn + fp = 1 \<and> fn + tp = 1
      | NormPred \<Rightarrow> tn + fn = 1 \<and> fp + tp = 1
      | NormAll \<Rightarrow> tn + fp + fn + tp = 1
      | NormNone \<Rightarrow> True)"

definition normalized_confusion :: "normalize \<Rightarrow> bool list \<Rightarrow> bool list
    \<Rightarrow> py_error + real \<times> real \<times> real \<times> real" where
  "normalized_confusion mode imag_modes_true imag_modes_pred =
     (case confusion_matrix mode imag_modes_true imag_modes_pred of
        Inl e \<Rightarrow> Inl e
      | Inr conf_mat \<Rightarrow>
          (case conf_mat of
             [[tn, fp], [fn, tp]] \<Rightarrow>
               if sums_to_one mode tn fp fn tp then Inr (tn, fp, fn, tp)
               else Inl AssertionError
           | _ \<Rightarrow> Inl ValueError))"

text \<open>
  Lines 107 to 111, and the values stored under the table's keys on lines 113 to 122. The
  entries are NumPy floats, so the three divisions cannot raise. \<open>roc_auc_score\<close> on line
  112 runs after all of this and is left out.
\<close>

record clf_scores =
  prec_imag_freq :: npfloat
  recall_imag_freq :: npfloat
  f1_imag_freq :: npfloat
  acc_imag_freq :: real
  fpr_imag_freq :: real
  fnr_imag_freq :: real

definition imag_clf_scores :: "normalize \<Rightarrow> bool list \<Rightarrow> bool list \<Rightarrow> py_error + clf_scores" where
  "imag_clf_scores mode imag_modes_true imag_modes_pred =
     (case normalized_confusion mode imag_modes_true imag_modes_pred of
        Inl e \<Rightarrow> Inl e
      | Inr (tn, fp, fn, tp) \<Rightarrow>
          (let acc = accuracy_score imag_modes_true imag_modes_pred;
               precision = np_div (Fin tp) (Fin (tp + fp));
               recall = np_div (Fin tp) (Fin (tp + fn));
               f1 = np_div (np_mul (Fin 2) (np_mul precision recall)) (np_add precision recall)
           in Inr \<lparr>prec_imag_freq = precision, recall_imag_freq = recall, f1_imag_freq = f1,
                    acc_imag_freq = acc, fpr_imag_freq = fp, fnr_imag_freq = fn\<rparr>))"

subsection \<open>The regression loop body, lines 64 to 69\<close>

text \<open>
  A pandas Series of floats: index labels with their values, \<open>None\<close> for \<open>NaN\<close>. The
  labels of one Series are distinct (the theorems assume it). Infinite values are not
  modelled.
\<close>

type_synonym series = "(string \<times> real option) list"

definition series_get :: "series \<Rightarrow> string \<Rightarrow> real option" where
  "series_get s k = (case map_of s k of Some (Some x) \<Rightarrow> Some x | _ \<Rightarrow> None)"

text \<open>
  \<open>a - b\<close> aligns the two Series on the union of their labels; a label missing on one
  side, or \<open>NaN\<close> on one side, gives \<open>NaN\<close>. The labels of \<open>a\<close> come first here (pandas
  sorts the union when the two indexes differ; the order does not enter a mean or a sum).
\<close>

definition series_sub :: "series \<Rightarrow> series \<Rightarrow> series" where
  "series_sub a b =
     map (\<lambda>k. (k, case (series_get a k, series_get b k) of
                     (Some x, Some y) \<Rightarrow> Some (x - y)
                   | _ \<Rightarrow> None))
       (map fst a @ filter (\<lambda>k. k \<notin> set (map fst a)) (map fst b))"

definition series_abs :: "series \<Rightarrow> series" where
  "series_abs s = map (\<lambda>kv. (fst kv, map_option abs (snd kv))) s"

text \<open>\<open>Series.dropna()\<close>, and \<open>Series.mean()\<close>, which skips \<open>NaN\<close> and is \<open>nan\<close> on nothing.\<close>

definition dropna :: "series \<Rightarrow> (string \<times> real) list" where
  "dropna s = concat (map (\<lambda>kv. case snd kv of None \<Rightarrow> [] | Some x \<Rightarrow> [(fst kv, x)]) s)"

definition series_mean :: "series \<Rightarrow> npfloat" where
  "series_mean s =
     (let xs = map snd (dropna s)
      in if xs = [] then NaN else Fin (sum_list xs / real (length xs)))"

text \<open>\<open>Series.loc[labels]\<close>: the values at the labels, in their order; \<open>KeyError\<close> on a
  label the Series does not have.\<close>

fun series_loc :: "series \<Rightarrow> string list \<Rightarrow> py_error + real option list" where
  "series_loc s [] = Inr []"
| "series_loc s (k # ks) =
     (case map_of s k of
        None \<Rightarrow> Inl KeyError
      | Some v \<Rightarrow> (case series_loc s ks of Inl e \<Rightarrow> Inl e | Inr vs \<Rightarrow> Inr (v # vs)))"

text \<open>
  \<open>sklearn.metrics.r2_score\<close>: \<open>ValueError\<close> on \<open>NaN\<close>, on different lengths and on no
  sample; \<open>nan\<close> (with a warning) on a single sample; else
  \<open>1 - sum((t - p)^2) / sum((t - mean(t))^2)\<close>, and with a zero denominator 1 for a
  perfect prediction and 0 otherwise.
\<close>

definition r2_score :: "real option list \<Rightarrow> real option list \<Rightarrow> py_error + npfloat" where
  "r2_score y_true y_pred =
     (if None \<in> set y_true \<union> set y_pred \<or> length y_true \<noteq> length y_pred \<or> y_true = []
      then Inl ValueError
      else if length y_true < 2 then Inr NaN
      else
        (let t = map the y_true; p = map the y_pred;
             mean_t = sum_list t / real (length t);
             numerator = sum_list (map (\<lambda>tp. (fst tp - snd tp)\<^sup>2) (zip t p));
             denominator = sum_list (map (\<lambda>x. (x - mean_t)\<^sup>2) t)
         in if denominator \<noteq> 0 then Inr (Fin (1 - numerator / denominator))
            else if numerator = 0 then Inr (Fin 1) else Inr (Fin 0)))"

text \<open>
  Lines 64 to 69 for one model and one metric: \<open>df_dft[metric]\<close> and \<open>df_model[metric]\<close>
  go in, \<open>(ph_freq_mae, ph_freq_r2)\<close> comes out.
\<close>

definition freq_regression :: "series \<Rightarrow> series \<Rightarrow> py_error + npfloat \<times> npfloat" where
  "freq_regression dft_metric model_metric =
     (let diff = series_sub dft_metric model_metric;
          ph_freq_mae = series_mean (series_abs diff);
          not_nan = map fst (dropna diff)
      in case series_loc dft_metric not_nan of
           Inl e \<Rightarrow> Inl e
         | Inr t \<Rightarrow>
             (case series_loc model_metric not_nan of
                Inl e \<Rightarrow> Inl e
              | Inr p \<Rightarrow>
                  (case r2_score t p of
                     Inl e \<Rightarrow> Inl e
                   | Inr ph_freq_r2 \<Rightarrow> Inr (ph_freq_mae, ph_freq_r2))))"

text \<open>
  The materials that enter a comparison, as the words of the specification have it: those
  with a value on both sides, each with its reference and its model value.
\<close>

definition present_in_both :: "series \<Rightarrow> series \<Rightarrow> (string \<times> real \<times> real) list" where
  "present_in_both ref model =
     concat (map (\<lambda>kv. case (snd kv, series_get model (fst kv)) of
                          (Some x, Some y) \<Rightarrow> [(fst kv, x, y)]
                        | _ \<Rightarrow> []) ref)"

subsection \<open>The export of the analysed material ids, lines 31 to 41\<close>

text \<open>
  \<open>df_summary\<close> is built by \<open>ffonons.io.get_df_summary\<close>, outside these files, and is an
  input here: one row per pair of material id and model (the two index levels) with the
  columns the export reads.
\<close>

record summary_row =
  idx_mat_id :: string
  idx_model :: string
  col_max_freq :: "real option"
  col_formula :: string
  col_supercell :: string
  col_n_sites :: nat

text \<open>
  Line 31: \<open>unstack()\<close> makes one row per material and one column per model, and raises
  \<open>ValueError\<close> on a repeated index pair; \<open>dropna(thresh=4)\<close> keeps the materials with at
  least four values of \<open>max_freq\<close>. The ids are listed in order of first appearance
  (pandas orders them; line 39 sorts them again).
\<close>

definition idx_n_avail :: "summary_row list \<Rightarrow> string list" where
  "idx_n_avail df =
     filter (\<lambda>i. 4 \<le> length (filter (\<lambda>r. idx_mat_id r = i \<and> col_max_freq r \<noteq> None) df))
       (remdups (map idx_mat_id df))"

text \<open>\<open>str.split("-")\<close>\<close>

fun split_on :: "char \<Rightarrow> string \<Rightarrow> string list" where
  "split_on sep [] = [[]]"
| "split_on sep (c # cs) =
     (if c = sep then [] # split_on sep cs
      else (case split_on sep cs of
              [] \<Rightarrow> [[c]]
            | w # ws \<Rightarrow> (c # w) # ws))"

text \<open>
  Python's \<open>int\<close> of a string in base 10, for ASCII input: white space around, an optional
  sign, digits, single underscores between digits. \<open>astype(int)\<close> also needs the value to
  fit 64 bits.
\<close>

definition digit_val :: "char \<Rightarrow> nat option" where
  "digit_val c =
     (let n = (of_char c :: nat) in if 48 \<le> n \<and> n \<le> 57 then Some (n - 48) else None)"

fun digits_value :: "nat \<Rightarrow> string \<Rightarrow> nat option" where
  "digits_value a [] = Some a"
| "digits_value a [c] = (case digit_val c of None \<Rightarrow> None | Some v \<Rightarrow> Some (10 * a + v))"
| "digits_value a (c # d # ds) =
     (if c = CHR ''_''
      then (case digit_val d of None \<Rightarrow> None | Some v \<Rightarrow> digits_value (10 * a + v) ds)
      else (case digit_val c of None \<Rightarrow> None | Some v \<Rightarrow> digits_value (10 * a + v) (d # ds)))"

definition unsigned_value :: "string \<Rightarrow> nat option" where
  "unsigned_value s =
     (case s of
        [] \<Rightarrow> None
      | c # cs \<Rightarrow> (case digit_val c of None \<Rightarrow> None | Some v \<Rightarrow> digits_value v cs))"

definition is_space :: "char \<Rightarrow> bool" where
  "is_space c = (c \<in> set [CHR '' '', CHR 0x09, CHR 0x0A, CHR 0x0B, CHR 0x0C, CHR 0x0D])"

definition strip :: "string \<Rightarrow> string" where
  "strip s = rev (dropWhile is_space (rev (dropWhile is_space s)))"

definition py_int :: "string \<Rightarrow> int option" where
  "py_int s =
     (case strip s of
        [] \<Rightarrow> None
      | c # cs \<Rightarrow>
          if c = CHR ''-'' then map_option (\<lambda>n. - int n) (unsigned_value cs)
          else if c = CHR ''+'' then map_option int (unsigned_value cs)
          else map_option int (unsigned_value (c # cs)))"

definition astype_int :: "string \<Rightarrow> py_error + int" where
  "astype_int s =
     (case py_int s of
        None \<Rightarrow> Inl ValueError
      | Some v \<Rightarrow> if - (2 ^ 63) \<le> v \<and> v < 2 ^ 63 then Inr v else Inl OverflowError)"

text \<open>
  The sort key of line 39, \<open>idx.str.split("-").str[1].astype(int)\<close>: an id without a
  second part gives \<open>NaN\<close> there, which \<open>astype(int)\<close> refuses.
\<close>

definition sort_key_of :: "string \<Rightarrow> py_error + int" where
  "sort_key_of mat_id =
     (case split_on CHR ''-'' mat_id of
        _ # part # _ \<Rightarrow> astype_int part
      | _ \<Rightarrow> Inl ValueError)"

fun sort_keys :: "string list \<Rightarrow> py_error + int list" where
  "sort_keys [] = Inr []"
| "sort_keys (i # is) =
     (case sort_key_of i of
        Inl e \<Rightarrow> Inl e
      | Inr k \<Rightarrow> (case sort_keys is of Inl e \<Rightarrow> Inl e | Inr ks \<Rightarrow> Inr (k # ks)))"

text \<open>
  A line of the CSV file: the index, then the columns \<open>[Key.formula, Key.supercell,
  Key.n_sites]\<close> in the order line 38 lists them.
\<close>

type_synonym csv_row = "string \<times> string \<times> string \<times> nat"

definition select_columns :: "summary_row \<Rightarrow> csv_row" where
  "select_columns r = (idx_mat_id r, col_formula r, col_supercell r, col_n_sites r)"

text \<open>
  \<open>sort_index(key=...)\<close>: the rows in ascending order of their keys. Rows with equal keys
  keep their order here; pandas' default sort promises no order among them.
\<close>

definition sort_index :: "csv_row list \<Rightarrow> py_error + csv_row list" where
  "sort_index rows =
     (case sort_keys (map fst rows) of
        Inl e \<Rightarrow> Inl e
      | Inr ks \<Rightarrow> Inr (map snd (sort_key fst (zip ks rows))))"

text \<open>\<open>df.xs(model, level=1)\<close> and \<open>df.loc[ids]\<close>, each with its \<open>KeyError\<close>.\<close>

definition xs_model :: "string \<Rightarrow> summary_row list \<Rightarrow> py_error + summary_row list" where
  "xs_model m df =
     (case filter (\<lambda>r. idx_model r = m) df of [] \<Rightarrow> Inl KeyError | rs \<Rightarrow> Inr rs)"

fun loc_rows :: "summary_row list \<Rightarrow> string list \<Rightarrow> py_error + summary_row list" where
  "loc_rows df [] = Inr []"
| "loc_rows df (k # ks) =
     (case filter (\<lambda>r. idx_mat_id r = k) df of
        [] \<Rightarrow> Inl KeyError
      | rs \<Rightarrow> (case loc_rows df ks of Inl e \<Rightarrow> Inl e | Inr rest \<Rightarrow> Inr (rs @ rest)))"

text \<open>
  Lines 31 to 41: the rows written to \<open>phonon-analysis-mp-ids.csv\<close>, top to bottom.
  \<open>pbe\<close> is the value of \<open>Key.pbe\<close>, a constant of \<open>ffonons.enums\<close>.
\<close>

definition export_mp_ids :: "string \<Rightarrow> summary_row list \<Rightarrow> py_error + csv_row list" where
  "export_mp_ids pbe df_summary =
     (if \<not> distinct (map (\<lambda>r. (idx_mat_id r, idx_model r)) df_summary) then Inl ValueError
      else case xs_model pbe df_summary of
             Inl e \<Rightarrow> Inl e
           | Inr df_pbe \<Rightarrow>
               (case loc_rows df_pbe (idx_n_avail df_summary) of
                  Inl e \<Rightarrow> Inl e
                | Inr rows \<Rightarrow> sort_index (map select_columns rows)))"

section \<open>Concrete inputs\<close>

text \<open>
  A client that knows one material, silicon \<open>mp-149\<close>, whose phonon document is a pair of
  a DOS and a band structure; a client whose phonon download fails; a codec that writes
  the pair as one JSON object and reads a file back as the JSON text it holds; an empty
  disk, and a disk that already holds the cache file of silicon.
\<close>

definition si_rester :: "(string \<times> string) mp_rester" where
  "si_rester =
     \<lparr>get_structure_by_material_id =
        (\<lambda>i. if i = ''mp-149'' then Inr ''Si2'' else Inl (ClientError ''unknown material'')),
      get_data_by_id =
        (\<lambda>i. if i = ''mp-149'' then Inr (''dos'', ''bands'')
             else Inl (ClientError ''no phonon data''))\<rparr>"

definition failing_rester :: "(string \<times> string) mp_rester" where
  "failing_rester =
     \<lparr>get_structure_by_material_id = (\<lambda>i. Inr ''Si2''),
      get_data_by_id = (\<lambda>i. Inl (ClientError ''timeout''))\<rparr>"

definition text_codec :: "(string \<times> string, string) json_codec" where
  "text_codec =
     \<lparr>json_dump = (\<lambda>d. ''{ph_dos: '' @ fst d @ '', ph_bs: '' @ snd d @ ''}''),
      json_load = (\<lambda>txt. Inr txt)\<rparr>"

definition empty_disk :: world where
  "empty_disk = \<lparr>files = Map.empty, api_calls = []\<rparr>"

definition si_cached :: world where
  "si_cached =
     \<lparr>files = [''/data/mp/mp-149-Si2.json.xz'' \<mapsto> ''{ph_dos: dos, ph_bs: bands}''],
      api_calls = []\<rparr>"

text \<open>
  A decoder that accepts every file, and a storage root with three materials: A with the
  sources \<open>ref\<close> and \<open>m1\<close>, B with \<open>ref\<close>, \<open>m1\<close> and \<open>m2\<close>, C with \<open>ref\<close> alone.
\<close>

definition read_ok :: "string \<Rightarrow> py_error + string" where
  "read_ok path = Inr ''payload''"

definition abc_listing :: "(string \<times> string) list" where
  "abc_listing =
     [(''mp-1-A'', ''phonon-bs-dos-ref.json.gz''), (''mp-2-B'', ''phonon-bs-dos-ref.json.gz''),
      (''mp-1-A'', ''phonon-bs-dos-m1.json.gz''), (''mp-2-B'', ''phonon-bs-dos-m1.json.gz''),
      (''mp-3-C'', ''phonon-bs-dos-ref.json.gz''), (''mp-2-B'', ''phonon-bs-dos-m2.json.gz'')]"

definition stored :: "string \<Rightarrow> string \<Rightarrow> string doc_dict" where
  "stored mp_id f = \<lparr>phonon_data = ''payload'', formula_key = f, id_key = mp_id\<rparr>"

definition abc_docs :: "string all_docs" where
  "abc_docs =
     [(''mp-1'', [(''ref'', stored ''mp-1'' ''A''), (''m1'', stored ''mp-1'' ''A'')]),
      (''mp-2'', [(''ref'', stored ''mp-2'' ''B''), (''m1'', stored ''mp-2'' ''B''),
                  (''m2'', stored ''mp-2'' ''B'')]),
      (''mp-3'', [(''ref'', stored ''mp-3'' ''C'')])]"

text \<open>
  Reference and model values of \<open>max_freq\<close>: the three materials of the specification's
  example, then \<open>mp-4\<close> that the model lacks, \<open>mp-5\<close> whose reference value is \<open>NaN\<close> and
  \<open>mp-6\<close> that the reference lacks.
\<close>

definition dft_max_freq :: series where
  "dft_max_freq =
     [(''mp-1'', Some 1), (''mp-2'', Some 2), (''mp-3'', Some 3), (''mp-4'', Some 4),
      (''mp-5'', None)]"

definition model_max_freq :: series where
  "model_max_freq =
     [(''mp-1'', Some 1.5), (''mp-2'', Some 2), (''mp-3'', Some 2), (''mp-5'', Some 9),
      (''mp-6'', Some 1)]"

text \<open>
  A summary table with four sources. \<open>mp-20\<close>, \<open>mp-3\<close> and \<open>mp-100\<close> have \<open>max_freq\<close> from all
  four; \<open>mp-7\<close> has two rows only; \<open>mp-5\<close> has four rows, one of them \<open>NaN\<close>.
\<close>

definition summary :: "string \<Rightarrow> string \<Rightarrow> real option \<Rightarrow> summary_row" where
  "summary i m f =
     \<lparr>idx_mat_id = i, idx_model = m, col_max_freq = f, col_formula = ''Si2'',
      col_supercell = ''2x2x2'', col_n_sites = 2\<rparr>"

definition df_example :: "summary_row list" where
  "df_example =
     concat (map (\<lambda>i. map (\<lambda>m. summary i m (Some 15)) [''pbe'', ''mace'', ''chgnet'', ''m3gnet''])
               [''mp-20'', ''mp-3'', ''mp-100''])
     @ [summary ''mp-7'' ''pbe'' (Some 9), summary ''mp-7'' ''mace'' (Some 9),
        summary ''mp-5'' ''pbe'' (Some 9), summary ''mp-5'' ''mace'' None,
        summary ''mp-5'' ''chgnet'' (Some 9), summary ''mp-5'' ''m3gnet'' (Some 9)]"

section \<open>Properties of the cached download\<close>

lemmas cache_defs =
  get_mp_ph_docs_def Let_def log_call_def write_file_def read_file_def isfile_def

lemmas cache_examples =
  si_rester_def failing_rester_def text_codec_def empty_disk_def si_cached_def
  id_formula_def mp_ph_doc_path_def

text \<open>
  After a call that returned a document with a non-empty \<open>docs_dir\<close>, the cache file
  exists, so the next call reads it: it logs the structure lookup only, and what it returns
  is the decoded file. When the first call downloaded the document, the file holds its
  \<open>json_dump\<close>.
\<close>

lemma repeated_call_reads_cache:
  assumes "docs_dir \<noteq> []"
      and "get_mp_ph_docs mp_rester codec mp_id docs_dir w = (Inr (doc, path), w')"
  shows "\<exists>txt. read_file w' path = Some txt
           \<and> (\<forall>d. doc = PhononBSDOSDoc d \<longrightarrow> txt = json_dump codec d)
           \<and> get_mp_ph_docs mp_rester codec mp_id docs_dir w' =
               ((case json_load codec txt of
                   Inl e \<Rightarrow> Inl e
                 | Inr j \<Rightarrow> Inr (JsonValue j, path)),
                log_call (StructureLookup mp_id) w')"
proof (cases "get_structure_by_material_id mp_rester mp_id")
  case (Inl e)
  with assms(2) show ?thesis by (simp add: cache_defs)
next
  case (Inr formula)
  let ?p = "mp_ph_doc_path docs_dir (id_formula mp_id formula)"
  from assms(1) have nonempty: "?p \<noteq> []" by (simp add: mp_ph_doc_path_def)
  show ?thesis
  proof (cases "files w ?p")
    case None
    with assms(2) Inr nonempty show ?thesis
      by (auto simp: cache_defs split: sum.splits)
  next
    case (Some cached)
    with assms(2) Inr nonempty show ?thesis
      by (auto simp: cache_defs split: sum.splits)
  qed
qed

text \<open>
  C1, at a concrete input. Two calls for silicon with the storage root \<open>/data/mp\<close>, starting
  from an empty disk: the phonon download runs once, as the claim says. But the first call
  returns the client's \<open>PhononBSDOSDoc\<close> object and the second returns the plain JSON value
  read back from the file, so the two results differ, although the function is declared
  to return a \<open>PhononBSDOSDoc\<close>.
\<close>

theorem cache_hit_returns_plain_json:
  "get_mp_ph_docs si_rester text_codec ''mp-149'' ''/data/mp'' empty_disk =
     (Inr (PhononBSDOSDoc (''dos'', ''bands''), ''/data/mp/mp-149-Si2.json.xz''),
      \<lparr>files = [''/data/mp/mp-149-Si2.json.xz'' \<mapsto> ''{ph_dos: dos, ph_bs: bands}''],
         api_calls = [StructureLookup ''mp-149'', PhononFetch ''mp-149'']\<rparr>)
   \<and> get_mp_ph_docs si_rester text_codec ''mp-149'' ''/data/mp''
        (snd (get_mp_ph_docs si_rester text_codec ''mp-149'' ''/data/mp'' empty_disk)) =
     (Inr (JsonValue ''{ph_dos: dos, ph_bs: bands}'', ''/data/mp/mp-149-Si2.json.xz''),
      \<lparr>files = [''/data/mp/mp-149-Si2.json.xz'' \<mapsto> ''{ph_dos: dos, ph_bs: bands}''],
         api_calls = [StructureLookup ''mp-149'', PhononFetch ''mp-149'',
                      StructureLookup ''mp-149'']\<rparr>)
   \<and> fst (get_mp_ph_docs si_rester text_codec ''mp-149'' ''/data/mp'' empty_disk)
       \<noteq> fst (get_mp_ph_docs si_rester text_codec ''mp-149'' ''/data/mp''
               (snd (get_mp_ph_docs si_rester text_codec ''mp-149'' ''/data/mp'' empty_disk)))"
  by (simp add: cache_defs cache_examples)

text \<open>
  C6. With \<open>docs_dir = ""\<close> no call changes the files, whatever the disk holds, and every
  call whose structure lookup returns a formula goes on to the phonon download: it never
  reads a cache file, and it returns what the download returns, with the empty path.
\<close>

theorem disabled_persistence:
  "files (snd (get_mp_ph_docs mp_rester codec mp_id [] w)) = files w
   \<and> (get_structure_by_material_id mp_rester mp_id = Inr formula \<longrightarrow>
        get_mp_ph_docs mp_rester codec mp_id [] w =
          ((case get_data_by_id mp_rester mp_id of
              Inl e \<Rightarrow> Inl e
            | Inr doc \<Rightarrow> Inr (PhononBSDOSDoc doc, [])),
           log_call (PhononFetch mp_id) (log_call (StructureLookup mp_id) w)))"
  by (auto simp: cache_defs mp_ph_doc_path_def split: sum.splits option.splits)

theorem disabled_persistence_witness:
  "get_structure_by_material_id si_rester ''mp-149'' = Inr ''Si2''
   \<and> files (snd (get_mp_ph_docs si_rester text_codec ''mp-149'' [] si_cached)) = files si_cached
   \<and> get_mp_ph_docs si_rester text_codec ''mp-149'' [] si_cached =
       (Inr (PhononBSDOSDoc (''dos'', ''bands''), []),
        log_call (PhononFetch ''mp-149'') (log_call (StructureLookup ''mp-149'') si_cached))
   \<and> api_calls (snd (get_mp_ph_docs si_rester text_codec ''mp-149'' []
        (snd (get_mp_ph_docs si_rester text_codec ''mp-149'' [] si_cached)))) =
       [StructureLookup ''mp-149'', PhononFetch ''mp-149'',
        StructureLookup ''mp-149'', PhononFetch ''mp-149'']"
proof -
  have h: "get_structure_by_material_id si_rester ''mp-149'' = Inr ''Si2''"
    by (simp add: si_rester_def)
  have d: "get_data_by_id si_rester ''mp-149'' = Inr (''dos'', ''bands'')"
    by (simp add: si_rester_def)
  note first = disabled_persistence [of si_rester text_codec "''mp-149''" si_cached "''Si2''"]
  note second = disabled_persistence [of si_rester text_codec "''mp-149''"
      "log_call (PhononFetch ''mp-149'') (log_call (StructureLookup ''mp-149'') si_cached)"
      "''Si2''"]
  from first second h d show ?thesis
    by (simp add: log_call_def si_cached_def)
qed

text \<open>
  C7. When the phonon download is reached (the structure lookup returned a formula and no
  cache file exists) and raises \<open>e\<close>, the call raises the same \<open>e\<close> and the files are as
  they were.
\<close>

theorem fetch_error_not_cached:
  assumes "get_structure_by_material_id mp_rester mp_id = Inr formula"
      and "\<not> isfile w (mp_ph_doc_path docs_dir (id_formula mp_id formula))"
      and "get_data_by_id mp_rester mp_id = Inl e"
  shows "fst (get_mp_ph_docs mp_rester codec mp_id docs_dir w) = Inl e
         \<and> files (snd (get_mp_ph_docs mp_rester codec mp_id docs_dir w)) = files w"
  using assms by (auto simp: cache_defs split: option.splits if_splits)

theorem fetch_error_not_cached_witness:
  "get_structure_by_material_id failing_rester ''mp-149'' = Inr ''Si2''
   \<and> \<not> isfile empty_disk (mp_ph_doc_path ''/data/mp'' (id_formula ''mp-149'' ''Si2''))
   \<and> get_data_by_id failing_rester ''mp-149'' = Inl (ClientError ''timeout'')
   \<and> fst (get_mp_ph_docs failing_rester text_codec ''mp-149'' ''/data/mp'' empty_disk)
       = Inl (ClientError ''timeout'')
   \<and> files (snd (get_mp_ph_docs failing_rester text_codec ''mp-149'' ''/data/mp'' empty_disk))
       = files empty_disk"
proof -
  have h1: "get_structure_by_material_id failing_rester ''mp-149'' = Inr ''Si2''"
    by (simp add: failing_rester_def)
  have h2: "\<not> isfile empty_disk (mp_ph_doc_path ''/data/mp'' (id_formula ''mp-149'' ''Si2''))"
    by (simp add: isfile_def read_file_def empty_disk_def)
  have h3: "get_data_by_id failing_rester ''mp-149'' = Inl (ClientError ''timeout'')"
    by (simp add: failing_rester_def)
  show ?thesis
    using h1 h2 h3 fetch_error_not_cached [OF h1 h2 h3, of text_codec] by simp
qed

text \<open>
  C10. Every call logs the structure lookup first, on every path: when the lookup raises,
  when the cache file exists (then nothing else is logged) and when it does not, which
  includes \<open>docs_dir = ""\<close> (then the phonon download follows).
\<close>

theorem structure_lookup_on_every_call:
  "api_calls (snd (get_mp_ph_docs mp_rester codec mp_id docs_dir w)) =
     api_calls w @ StructureLookup mp_id #
       (case get_structure_by_material_id mp_rester mp_id of
          Inl e \<Rightarrow> []
        | Inr formula \<Rightarrow>
            if isfile w (mp_ph_doc_path docs_dir (id_formula mp_id formula)) then []
            else [PhononFetch mp_id])"
  by (auto simp: cache_defs split: sum.splits option.splits)

theorem structure_lookup_on_every_call_witness:
  "api_calls (snd (get_mp_ph_docs si_rester text_codec ''mp-149'' ''/data/mp'' si_cached))
     = [StructureLookup ''mp-149'']
   \<and> api_calls (snd (get_mp_ph_docs si_rester text_codec ''mp-149'' [] si_cached))
     = [StructureLookup ''mp-149'', PhononFetch ''mp-149'']"
  using structure_lookup_on_every_call
      [of si_rester text_codec "''mp-149''" "''/data/mp''" si_cached]
    structure_lookup_on_every_call [of si_rester text_codec "''mp-149''" "[]" si_cached]
  by (simp add: cache_examples isfile_def read_file_def)

section \<open>Properties of loading and grouping\<close>

lemmas agg_examples =
  load_all_docs_def glob_docs_def glob_selects_def ishidden_def fnmatch_star_def
  entry_path_def read_ok_def search_key_def key_pattern_def substring_def
  startswith_def store_doc_def

text \<open>The storage root of the example loads into the three materials A, B and C.\<close>

lemma abc_loaded: "load_all_docs read_ok ''/figs'' abc_listing = Inr abc_docs"
  by (simp add: agg_examples abc_listing_def abc_docs_def stored_def)

text \<open>A path the pattern does not match stops the loop with an error, wherever it stands.\<close>

lemma load_docs_unparsed:
  "p \<in> set ps \<Longrightarrow> search_key p = None \<Longrightarrow> \<exists>e. load_docs read_doc ps acc = Inl e"
proof (induction ps arbitrary: acc)
  case Nil
  then show ?case by simp
next
  case (Cons q ps)
  show ?case
  proof (cases "q = p")
    case True
    with Cons.prems show ?thesis by (simp split: sum.splits)
  next
    case False
    with Cons.prems have "p \<in> set ps" by simp
    from Cons.IH [OF this Cons.prems(2)] show ?thesis
      by (auto split: sum.splits option.splits prod.splits)
  qed
qed

text \<open>
  The loop keeps both levels of \<open>all_docs\<close> free of repeated keys, as Python dictionaries
  are: then the length of an inner association list is the number of its sources.
\<close>

lemma set_update_subset: "set (AList.update k v al) \<subseteq> insert (k, v) (set al)"
  by (induction al) auto

lemma store_doc_keys:
  assumes "distinct (map fst all_docs)" "\<forall>kv \<in> set all_docs. distinct (map fst (snd kv))"
  shows "distinct (map fst (store_doc mp_id model d all_docs))
       \<and> (\<forall>kv \<in> set (store_doc mp_id model d all_docs). distinct (map fst (snd kv)))"
proof -
  let ?old = "case map_of all_docs mp_id of None \<Rightarrow> [] | Some v \<Rightarrow> v"
  have old: "distinct (map fst ?old)"
  proof (cases "map_of all_docs mp_id")
    case None
    then show ?thesis by simp
  next
    case (Some v)
    then have "(mp_id, v) \<in> set all_docs" by (rule map_of_SomeD)
    with assms(2) Some show ?thesis by auto
  qed
  have new: "distinct (map fst (AList.update model d ?old))"
    using old by (rule distinct_update)
  have "set (AList.update mp_id (AList.update model d ?old) all_docs)
          \<subseteq> insert (mp_id, AList.update model d ?old) (set all_docs)"
    by (rule set_update_subset)
  with assms(2) new
  have "\<forall>kv \<in> set (store_doc mp_id model d all_docs). distinct (map fst (snd kv))"
    unfolding store_doc_def by auto
  moreover have "distinct (map fst (store_doc mp_id model d all_docs))"
    unfolding store_doc_def using assms(1) by (rule distinct_update)
  ultimately show ?thesis by simp
qed

lemma load_docs_keys:
  assumes "load_docs read_doc ps acc = Inr all_docs"
      and "distinct (map fst acc)" "\<forall>kv \<in> set acc. distinct (map fst (snd kv))"
  shows "distinct (map fst all_docs) \<and> (\<forall>kv \<in> set all_docs. distinct (map fst (snd kv)))"
  using assms
proof (induction ps arbitrary: acc)
  case Nil
  then show ?case by simp
next
  case (Cons p ps)
  from Cons.prems(1) obtain x mp_id f model where
      "read_doc p = Inr x" "search_key p = Some (mp_id, f, model)"
      and rest: "load_docs read_doc ps
         (store_doc mp_id model \<lparr>phonon_data = x, formula_key = f, id_key = mp_id\<rparr> acc)
           = Inr all_docs"
    by (auto split: sum.splits option.splits prod.splits if_splits)
  from store_doc_keys [OF Cons.prems(2,3)] Cons.IH [OF rest] show ?case by blast
qed

lemma load_all_docs_keys:
  assumes "load_all_docs read_doc figs_dir listing = Inr all_docs"
  shows "distinct (map fst all_docs) \<and> (\<forall>kv \<in> set all_docs. distinct (map fst (snd kv)))"
  using assms unfolding load_all_docs_def by (rule load_docs_keys) simp_all

subsection \<open>Keys that do not parse\<close>

text \<open>
  An entry that \<open>glob\<close> selects and whose path the key pattern does not match ends the load
  in an error, whatever the decoder and whatever else the storage root holds. Under the
  root \<open>/figs\<close> the directory \<open>garbage\<close> is such an entry.
\<close>

lemma unparsed_entry_raises:
  assumes "e \<in> set listing" and "glob_selects e"
      and "search_key (entry_path figs_dir e) = None"
  shows "\<exists>err. load_all_docs read_doc figs_dir listing = Inl err"
proof -
  from assms(1,2) have "entry_path figs_dir e \<in> set (glob_docs figs_dir listing)"
    by (simp add: glob_docs_def)
  with assms(3) show ?thesis
    unfolding load_all_docs_def by (blast intro: load_docs_unparsed)
qed

lemma garbage_entry_raises:
  assumes "(''garbage'', ''phonon-bs-dos-x.json.gz'') \<in> set listing"
  shows "\<exists>err. load_all_docs read_doc ''/figs'' listing = Inl err"
proof (rule unparsed_entry_raises [OF assms])
  show "glob_selects (''garbage'', ''phonon-bs-dos-x.json.gz'')"
    by (simp add: glob_selects_def fnmatch_star_def ishidden_def)
  show "search_key (entry_path ''/figs'' (''garbage'', ''phonon-bs-dos-x.json.gz'')) = None"
    by (simp add: entry_path_def search_key_def key_pattern_def)
qed

text \<open>
  The marks of a match lie at or after the position where the match started, a greedy
  \<open>.*\<close> hands over to the rest of the pattern at some later position, and so does
  \<open>re.search\<close>.
\<close>

lemma rx_match_marks:
  "rx_match ts s i ms = Some r \<Longrightarrow> \<exists>new. r = rev ms @ new \<and> (\<forall>p \<in> set new. i \<le> p)"
proof (induction ts s i ms arbitrary: r rule: rx_match.induct)
  case (1 s i ms)
  then show ?case by simp
next
  case (2 c ts i ms)
  then show ?case by simp
next
  case (3 c ts x xs i ms)
  then show ?case by (fastforce split: if_splits)
next
  case (4 ts i ms)
  then show ?case by simp
next
  case (5 ts x xs i ms)
  then show ?case by (fastforce split: if_splits)
next
  case (6 ts s i ms)
  from "6.prems" have "rx_match ts s i (i # ms) = Some r" by simp
  from "6.IH" [OF this] show ?case by auto
next
  case (7 ts i ms)
  then show ?case by simp
next
  case (8 ts x xs i ms)
  show ?case
  proof (cases "x \<noteq> CHR 0x0A")
    case True
    show ?thesis
    proof (cases "rx_match (StarAny # ts) xs (Suc i) ms")
      case None
      with True "8.prems" have "rx_match ts (x # xs) i ms = Some r" by simp
      from "8.IH"(2) [OF True None this] show ?thesis .
    next
      case (Some r')
      with True "8.prems" have "r' = r" by simp
      with "8.IH"(1) [OF True] Some show ?thesis by fastforce
    qed
  next
    case False
    with "8.prems" have "rx_match ts (x # xs) i ms = Some r" by simp
    from "8.IH"(3) [OF False this] show ?thesis .
  qed
qed


lemma rx_match_star:
  "rx_match (StarAny # ts) s i ms = Some r \<Longrightarrow>
     \<exists>k \<le> length s. rx_match ts (drop k s) (i + k) ms = Some r"
proof (induction s arbitrary: i)
  case Nil
  then show ?case by simp
next
  case (Cons x xs)
  show ?case
  proof (cases "x \<noteq> CHR 0x0A \<and> rx_match (StarAny # ts) xs (Suc i) ms \<noteq> None")
    case True
    with Cons.prems have "rx_match (StarAny # ts) xs (Suc i) ms = Some r" by auto
    from Cons.IH [OF this] obtain k where "k \<le> length xs"
      "rx_match ts (drop k xs) (Suc i + k) ms = Some r" by blast
    then have "Suc k \<le> length (x # xs) \<and> rx_match ts (drop (Suc k) (x # xs)) (i + Suc k) ms = Some r"
      by simp
    then show ?thesis by blast
  next
    case False
    with Cons.prems have "rx_match ts (x # xs) i ms = Some r" by (auto split: if_splits)
    then have "0 \<le> length (x # xs) \<and> rx_match ts (drop 0 (x # xs)) (i + 0) ms = Some r" by simp
    then show ?thesis by blast
  qed
qed

lemma rx_search_start:
  "rx_search ts s i = Some r \<Longrightarrow> \<exists>k \<le> length s. rx_match ts (drop k s) (i + k) [] = Some r"
proof (induction s arbitrary: i)
  case Nil
  then show ?case by simp
next
  case (Cons x xs)
  show ?case
  proof (cases "rx_match ts (x # xs) i []")
    case None
    with Cons.prems have "rx_search ts xs (Suc i) = Some r" by simp
    from Cons.IH [OF this] obtain k where "k \<le> length xs"
      "rx_match ts (drop k xs) (Suc i + k) [] = Some r" by blast
    then have "Suc k \<le> length (x # xs) \<and> rx_match ts (drop (Suc k) (x # xs)) (i + Suc k) [] = Some r"
      by simp
    then show ?thesis by blast
  next
    case (Some r')
    with Cons.prems have "rx_match ts (drop 0 (x # xs)) (i + 0) [] = Some r" by simp
    then show ?thesis by (intro exI [of _ 0]) simp
  qed
qed

lemma rx_match_mp_group:
  assumes "rx_match (Chr CHR ''/'' # Mark # Chr CHR ''m'' # Chr CHR ''p'' # Chr CHR ''-'' # ts) s i []
             = Some r"
  shows "\<exists>new. take 3 (drop 1 s) = ''mp-'' \<and> r = Suc i # new \<and> (\<forall>p \<in> set new. Suc i + 3 \<le> p)"
proof -
  from assms obtain s1 where s1: "s = CHR ''/'' # s1"
    by (cases s) (auto split: if_splits)
  with assms have m1: "rx_match (Chr CHR ''m'' # Chr CHR ''p'' # Chr CHR ''-'' # ts) s1 (Suc i) [Suc i]
      = Some r" by simp
  then obtain s2 where s2: "s1 = CHR ''m'' # s2" by (cases s1) (auto split: if_splits)
  with m1 have m2: "rx_match (Chr CHR ''p'' # Chr CHR ''-'' # ts) s2 (Suc (Suc i)) [Suc i] = Some r"
    by simp
  then obtain s3 where s3: "s2 = CHR ''p'' # s3" by (cases s2) (auto split: if_splits)
  with m2 have m3: "rx_match (Chr CHR ''-'' # ts) s3 (Suc (Suc (Suc i))) [Suc i] = Some r"
    by simp
  then obtain s4 where s4: "s3 = CHR ''-'' # s4" by (cases s3) (auto split: if_splits)
  with m3 have "rx_match ts s4 (Suc (Suc (Suc (Suc i)))) [Suc i] = Some r" by simp
  from rx_match_marks [OF this] obtain new where
    "r = Suc i # new" "\<forall>p \<in> set new. Suc (Suc (Suc (Suc i))) \<le> p" by auto
  with s1 s2 s3 s4 show ?thesis by (intro exI [of _ new]) auto
qed

text \<open>
  Whenever the key pattern matches, its first group starts with \<open>mp-\<close>: the assertion on
  line 174, the only check the script makes of a parsed key, can never fail.
\<close>

lemma search_key_mp_prefix:
  assumes "search_key path = Some (mp_id, f, m)"
  shows "startswith mp_id ''mp-''"
proof -
  from assms obtain b1 e1 b2 e2 b3 e3 where
      found: "rx_search key_pattern path 0 = Some [b1, e1, b2, e2, b3, e3]"
      and mp_id: "mp_id = substring path b1 e1"
    by (auto simp: search_key_def split: option.splits list.splits)
  let ?rest = "[StarAny, Mark, Chr CHR ''-'', Mark, StarAny, Mark] @ map Chr ''/phonon-bs-dos-''
      @ [Mark, StarAny, Mark, AnyChar] @ map Chr ''json'' @ [AnyChar] @ map Chr ''gz''"
  let ?tail = "Chr CHR ''/'' # Mark # Chr CHR ''m'' # Chr CHR ''p'' # Chr CHR ''-'' # ?rest"
  have pat: "key_pattern = StarAny # ?tail" by (simp add: key_pattern_def)
  from rx_search_start [OF found] obtain k where
    "rx_match key_pattern (drop k path) k [] = Some [b1, e1, b2, e2, b3, e3]" by auto
  then have "rx_match (StarAny # ?tail) (drop k path) k [] = Some [b1, e1, b2, e2, b3, e3]"
    by (simp only: pat)
  from rx_match_star [OF this] obtain j where
    "rx_match ?tail (drop j (drop k path)) (k + j) [] = Some [b1, e1, b2, e2, b3, e3]" by blast
  from rx_match_mp_group [OF this] obtain new where
      mp: "take 3 (drop 1 (drop j (drop k path))) = ''mp-''"
      and marks: "[b1, e1, b2, e2, b3, e3] = Suc (k + j) # new"
      and later: "\<forall>p \<in> set new. Suc (k + j) + 3 \<le> p"
    by blast
  from marks later have b1: "b1 = Suc (k + j)" and e1: "b1 + 3 \<le> e1" by auto
  from mp b1 have "take 3 (drop b1 path) = ''mp-''" by (simp add: add.commute)
  moreover from e1 have "min 3 (e1 - b1) = 3" by simp
  ultimately have "take 3 (substring path b1 e1) = ''mp-''"
    by (simp only: substring_def take_take)
  moreover have "length ''mp-'' = 3" by simp
  ultimately show ?thesis by (simp only: startswith_def mp_id)
qed

text \<open>
  C5, at a concrete input. The key pattern is searched in the whole path and its \<open>.\<close> also
  matches \<open>/\<close>. Under the storage root \<open>/home/mp-lab/figs\<close> the entry
  \<open>garbage-x/phonon-bs-dos-m.json.gz\<close>, whose directory names no material, is therefore
  loaded as the material \<open>mp-lab/figs/garbage\<close> with the formula \<open>x\<close>, and no error is
  raised, although the claim asks for one. Under the root \<open>/figs\<close> the same entry raises
  (and then it is the \<open>AttributeError\<close> of calling \<open>groups\<close> on \<open>None\<close>).
\<close>

theorem malformed_directory_loaded_as_material:
  "load_all_docs read_ok ''/home/mp-lab/figs'' [(''garbage-x'', ''phonon-bs-dos-m.json.gz'')]
     = Inr [(''mp-lab/figs/garbage'', [(''m'', stored ''mp-lab/figs/garbage'' ''x'')])]
   \<and> load_all_docs read_ok ''/figs'' [(''garbage-x'', ''phonon-bs-dos-m.json.gz'')]
     = Inl AttributeError"
  by (simp add: agg_examples stored_def)

text \<open>
  C8. For dictionaries without repeated keys (which the loading loop produces), the
  comprehension at \<open>k\<close> lists each material once, and exactly the materials whose record
  has \<open>k\<close> different sources. Lines 182 and 183 are the comprehension at 2 and at 3.
\<close>

theorem coverage_filter:
  assumes "distinct (map fst all_docs)" and "\<forall>kv \<in> set all_docs. distinct (map fst (snd kv))"
  shows "set (materials_with k all_docs)
           = {m. \<exists>v. map_of all_docs m = Some v \<and> card (fst ` set v) = k}
       \<and> distinct (materials_with k all_docs)
       \<and> materials_with_2 all_docs = materials_with 2 all_docs
       \<and> materials_with_3 all_docs = materials_with 3 all_docs"
proof -
  have len: "card (fst ` set v) = length v" if "(m, v) \<in> set all_docs" for m v
  proof -
    from that assms(2) have "distinct (map fst v)" by auto
    then have "card (set (map fst v)) = length (map fst v)" by (rule distinct_card)
    then show ?thesis by simp
  qed
  have "set (materials_with k all_docs) = {m. \<exists>v. (m, v) \<in> set all_docs \<and> length v = k}"
    by (auto simp: materials_with_def image_iff)
  also have "\<dots> = {m. \<exists>v. map_of all_docs m = Some v \<and> card (fst ` set v) = k}"
    using assms(1) len by (auto simp: map_of_eq_Some_iff dest: map_of_SomeD)
  finally have "set (materials_with k all_docs)
      = {m. \<exists>v. map_of all_docs m = Some v \<and> card (fst ` set v) = k}" .
  moreover have "distinct (materials_with k all_docs)"
    unfolding materials_with_def using assms(1) by (simp add: distinct_map_filter)
  ultimately show ?thesis by (simp add: materials_with_2_def materials_with_3_def)
qed

theorem coverage_filter_witness:
  "load_all_docs read_ok ''/figs'' abc_listing = Inr abc_docs
   \<and> materials_with_2 abc_docs = [''mp-1'']
   \<and> materials_with_3 abc_docs = [''mp-2'']
   \<and> set (materials_with 2 abc_docs)
       = {m. \<exists>v. map_of abc_docs m = Some v \<and> card (fst ` set v) = 2}
   \<and> set (materials_with 3 abc_docs)
       = {m. \<exists>v. map_of abc_docs m = Some v \<and> card (fst ` set v) = 3}"
proof -
  from load_all_docs_keys [OF abc_loaded]
  have wf: "distinct (map fst abc_docs)" "\<forall>kv \<in> set abc_docs. distinct (map fst (snd kv))"
    by simp_all
  have two: "materials_with_2 abc_docs = [''mp-1'']"
    by (simp add: materials_with_2_def materials_with_def abc_docs_def)
  have three: "materials_with_3 abc_docs = [''mp-2'']"
    by (simp add: materials_with_3_def materials_with_def abc_docs_def)
  from abc_loaded two three coverage_filter [OF wf, of 2] coverage_filter [OF wf, of 3]
  show ?thesis by simp
qed

section \<open>Properties of the classification scores\<close>

subsection \<open>Counting\<close>

lemma count_pairs_true_row:
  "length y_true = length y_pred \<Longrightarrow>
     count_pairs y_true y_pred t False + count_pairs y_true y_pred t True
       = length (filter (\<lambda>a. a = t) y_true)"
  by (induction y_true y_pred rule: list_induct2) (auto simp: count_pairs_def)

lemma count_pairs_pred_column:
  "length y_true = length y_pred \<Longrightarrow>
     count_pairs y_true y_pred False p + count_pairs y_true y_pred True p
       = length (filter (\<lambda>b. b = p) y_pred)"
  by (induction y_true y_pred rule: list_induct2) (auto simp: count_pairs_def)

lemma filter_eq_pos: "0 < length (filter (\<lambda>a. a = t) xs) \<longleftrightarrow> t \<in> set xs"
  by (induction xs) auto

lemma count_pairs_zero:
  "count_pairs y_true y_pred t p = 0 \<longleftrightarrow> (t, p) \<notin> set (zip y_true y_pred)"
  by (auto simp: count_pairs_def filter_empty_conv)

lemma true_row_entries:
  assumes "length y_true = length y_pred"
  shows "real (count_pairs y_true y_pred t False) + real (count_pairs y_true y_pred t True) = 0
           \<longleftrightarrow> t \<notin> set y_true"
proof -
  have "real (count_pairs y_true y_pred t False) + real (count_pairs y_true y_pred t True)
          = real (length (filter (\<lambda>a. a = t) y_true))"
    using count_pairs_true_row [OF assms, of t] by (simp flip: of_nat_add)
  then show ?thesis using filter_eq_pos [of t y_true] by auto
qed

lemma pred_column_entries:
  assumes "length y_true = length y_pred"
  shows "count_pairs y_true y_pred False p = 0 \<and> count_pairs y_true y_pred True p = 0
           \<longleftrightarrow> p \<notin> set y_pred"
  using count_pairs_pred_column [OF assms, of p] filter_eq_pos [of p y_pred] by auto

subsection \<open>The matrix normalised by true row\<close>

text \<open>A row of counts divided by its sum: the zero row stays zero, through \<open>nan_to_num\<close>.\<close>

lemma divide_row:
  assumes "0 \<le> a" "0 \<le> b"
  shows "divide_entries [a, b] [a + b, a + b]
           = (if a + b = 0 then [0, 0] else [a / (a + b), b / (a + b)])"
proof (cases "a + b = 0")
  case True
  with assms have "a = 0" "b = 0" by linarith+
  then show ?thesis by (simp add: divide_entries_def signed_inf_def)
next
  case False
  then show ?thesis by (simp add: divide_entries_def)
qed

lemma confusion_true_two_labels:
  assumes "length y_true = length y_pred"
      and "False \<in> set y_true \<union> set y_pred" and "True \<in> set y_true \<union> set y_pred"
  shows "confusion_matrix NormTrue y_true y_pred =
     Inr [divide_entries
            [real (count_pairs y_true y_pred False False),
             real (count_pairs y_true y_pred False True)]
            [real (count_pairs y_true y_pred False False)
               + real (count_pairs y_true y_pred False True),
             real (count_pairs y_true y_pred False False)
               + real (count_pairs y_true y_pred False True)],
          divide_entries
            [real (count_pairs y_true y_pred True False),
             real (count_pairs y_true y_pred True True)]
            [real (count_pairs y_true y_pred True False)
               + real (count_pairs y_true y_pred True True),
             real (count_pairs y_true y_pred True False)
               + real (count_pairs y_true y_pred True True)]]"
proof -
  from assms(2,3) have "unique_labels y_true y_pred = [False, True]"
    by (simp add: unique_labels_def)
  with assms(1) show ?thesis
    by (simp add: confusion_matrix_def normalize_cm_def raw_confusion_def)
qed

text \<open>
  With both labels in play the matrix is 2 by 2; the row of a label that \<open>y_true\<close> holds is
  made of the shares of its samples, and the row of a label that only \<open>y_pred\<close> holds is
  zero.
\<close>

lemma confusion_true_rows:
  assumes "length y_true = length y_pred"
      and "False \<in> set y_true \<union> set y_pred" and "True \<in> set y_true \<union> set y_pred"
  shows "confusion_matrix NormTrue y_true y_pred =
      Inr [if False \<in> set y_true
           then [real (count_pairs y_true y_pred False False)
                   / real (length (filter (\<lambda>a. a = False) y_true)),
                 real (count_pairs y_true y_pred False True)
                   / real (length (filter (\<lambda>a. a = False) y_true))]
           else [0, 0],
           if True \<in> set y_true
           then [real (count_pairs y_true y_pred True False)
                   / real (length (filter (\<lambda>a. a = True) y_true)),
                 real (count_pairs y_true y_pred True True)
                   / real (length (filter (\<lambda>a. a = True) y_true))]
           else [0, 0]]"
proof -
  let ?n = "\<lambda>t p. real (count_pairs y_true y_pred t p)"
  have total: "?n t False + ?n t True = real (length (filter (\<lambda>a. a = t) y_true))" for t
    using count_pairs_true_row [OF assms(1), of t] by (simp flip: of_nat_add)
  have row: "divide_entries [?n t False, ?n t True]
                [?n t False + ?n t True, ?n t False + ?n t True]
             = (if t \<in> set y_true
                then [?n t False / real (length (filter (\<lambda>a. a = t) y_true)),
                      ?n t True / real (length (filter (\<lambda>a. a = t) y_true))]
                else [0, 0])" for t
    using divide_row [of "?n t False" "?n t True"] true_row_entries [OF assms(1), of t]
    by (simp add: total)
  show ?thesis
    using confusion_true_two_labels [OF assms] by (simp only: row)
qed

lemma true_row_sums_to_one:
  assumes "length y_true = length y_pred" and "t \<in> set y_true"
  shows "real (count_pairs y_true y_pred t False) / real (length (filter (\<lambda>a. a = t) y_true))
       + real (count_pairs y_true y_pred t True) / real (length (filter (\<lambda>a. a = t) y_true)) = 1"
proof -
  have "real (count_pairs y_true y_pred t False) + real (count_pairs y_true y_pred t True)
          = real (length (filter (\<lambda>a. a = t) y_true))"
    using count_pairs_true_row [OF assms(1), of t] by (simp flip: of_nat_add)
  moreover have "real (length (filter (\<lambda>a. a = t) y_true)) \<noteq> 0"
    using assms(2) filter_eq_pos [of t y_true] by auto
  ultimately show ?thesis by (simp flip: add_divide_distrib)
qed

lemma normalized_confusion_both_classes:
  assumes "length y_true = length y_pred" "False \<in> set y_true" "True \<in> set y_true"
  shows "normalized_confusion NormTrue y_true y_pred =
     Inr (real (count_pairs y_true y_pred False False)
            / real (length (filter (\<lambda>a. a = False) y_true)),
          real (count_pairs y_true y_pred False True)
            / real (length (filter (\<lambda>a. a = False) y_true)),
          real (count_pairs y_true y_pred True False)
            / real (length (filter (\<lambda>a. a = True) y_true)),
          real (count_pairs y_true y_pred True True)
            / real (length (filter (\<lambda>a. a = True) y_true)))"
  using confusion_true_rows [of y_true y_pred] assms
    true_row_sums_to_one [OF assms(1,2)] true_row_sums_to_one [OF assms(1,3)]
  by (simp add: normalized_confusion_def sums_to_one_def)

text \<open>
  When \<open>y_true\<close> lacks a label, the script raises: the assertion fails on the zero row, or
  the matrix is not 2 by 2 and cannot be unpacked.
\<close>

lemma normalized_confusion_missing_class:
  assumes "length y_true = length y_pred"
      and "\<not> (False \<in> set y_true \<and> True \<in> set y_true)"
  shows "normalized_confusion NormTrue y_true y_pred =
           Inl (if False \<in> set y_true \<union> set y_pred \<and> True \<in> set y_true \<union> set y_pred
                then AssertionError else ValueError)"
proof (cases "False \<in> set y_true \<union> set y_pred \<and> True \<in> set y_true \<union> set y_pred")
  case True
  with assms(2) confusion_true_rows [OF assms(1)]
    true_row_sums_to_one [OF assms(1), of False] true_row_sums_to_one [OF assms(1), of True]
  show ?thesis
    by (auto simp: normalized_confusion_def sums_to_one_def)
next
  case False
  then have "unique_labels y_true y_pred = [] \<or> unique_labels y_true y_pred = [False]
      \<or> unique_labels y_true y_pred = [True]"
    by (auto simp: unique_labels_def)
  with assms(1) False show ?thesis
    by (auto simp: normalized_confusion_def confusion_matrix_def normalize_cm_def
        raw_confusion_def divide_entries_def)
qed

subsection \<open>The derived scores\<close>

lemma derived_scores:
  assumes "0 \<le> tp" "0 \<le> fp" "tp + fn = 1"
  shows "np_div (Fin tp) (Fin (tp + fp)) = (if tp + fp = 0 then NaN else Fin (tp / (tp + fp)))"
    and "np_div (Fin tp) (Fin (tp + fn)) = Fin tp"
    and "np_div (np_mul (Fin 2)
                  (np_mul (if tp + fp = 0 then NaN else Fin (tp / (tp + fp))) (Fin tp)))
           (np_add (if tp + fp = 0 then NaN else Fin (tp / (tp + fp))) (Fin tp))
         = (if tp = 0 then NaN
            else Fin (2 * (tp / (tp + fp) * tp) / (tp / (tp + fp) + tp)))"
proof -
  show "np_div (Fin tp) (Fin (tp + fp))
      = (if tp + fp = 0 then NaN else Fin (tp / (tp + fp)))"
    using assms(1,2) by (auto simp: signed_inf_def)
  show "np_div (Fin tp) (Fin (tp + fn)) = Fin tp"
    using assms(3) by simp
  show "np_div (np_mul (Fin 2)
                  (np_mul (if tp + fp = 0 then NaN else Fin (tp / (tp + fp))) (Fin tp)))
           (np_add (if tp + fp = 0 then NaN else Fin (tp / (tp + fp))) (Fin tp))
         = (if tp = 0 then NaN
            else Fin (2 * (tp / (tp + fp) * tp) / (tp / (tp + fp) + tp)))"
  proof (cases "tp = 0")
    case True
    then show ?thesis by (simp add: signed_inf_def)
  next
    case False
    with assms(1,2) have "0 < tp" "0 < tp + fp" by linarith+
    then have "0 < tp / (tp + fp) + tp" by (simp add: add_pos_pos)
    with False \<open>0 < tp + fp\<close> show ?thesis by simp
  qed
qed

text \<open>
  C2, as stated, fails: for the reference \<open>[True, True]\<close> and the model \<open>[False, False]\<close>
  the row of the label \<open>False\<close> is zero, the assertion \<open>tn + fp == 1\<close> on line 100 fails,
  and no score is computed.
\<close>

theorem no_scores_without_reference_negatives:
  "imag_clf_scores NormTrue [True, True] [False, False] = Inl AssertionError"
  by (simp add: imag_clf_scores_def normalized_confusion_def confusion_matrix_def
      normalize_cm_def raw_confusion_def unique_labels_def count_pairs_def divide_entries_def
      sums_to_one_def signed_inf_def)

text \<open>
  C2, amended. For vectors of one length, the scores are computed exactly when the
  reference holds both labels; otherwise the script raises. When they are computed, with
  \<open>tp\<close> the share of the reference positives that the model predicts positive and \<open>fp\<close>
  the share of the reference negatives that it predicts positive: recall is \<open>tp\<close>, a number;
  precision is \<open>tp / (tp + fp)\<close>, and \<open>nan\<close> exactly when the model never predicts positive;
  F1 is the harmonic mean of the two, and \<open>nan\<close> exactly when no positive is predicted
  right.
\<close>

theorem undefined_scores_are_nan:
  assumes "length y_true = length y_pred"
  shows "if False \<in> set y_true \<and> True \<in> set y_true
         then \<exists>s tp fp.
                imag_clf_scores NormTrue y_true y_pred = Inr s
              \<and> tp = real (count_pairs y_true y_pred True True)
                     / real (length (filter (\<lambda>a. a = True) y_true))
              \<and> fp = real (count_pairs y_true y_pred False True)
                     / real (length (filter (\<lambda>a. a = False) y_true))
              \<and> prec_imag_freq s = (if True \<in> set y_pred then Fin (tp / (tp + fp)) else NaN)
              \<and> recall_imag_freq s = Fin tp
              \<and> f1_imag_freq s =
                  (if (True, True) \<in> set (zip y_true y_pred)
                   then Fin (2 * (tp / (tp + fp) * tp) / (tp / (tp + fp) + tp)) else NaN)
         else \<exists>e. imag_clf_scores NormTrue y_true y_pred = Inl e"
proof (cases "False \<in> set y_true \<and> True \<in> set y_true")
  case True
  define tn where "tn = real (count_pairs y_true y_pred False False)
      / real (length (filter (\<lambda>a. a = False) y_true))"
  define fp where "fp = real (count_pairs y_true y_pred False True)
      / real (length (filter (\<lambda>a. a = False) y_true))"
  define fn where "fn = real (count_pairs y_true y_pred True False)
      / real (length (filter (\<lambda>a. a = True) y_true))"
  define tp where "tp = real (count_pairs y_true y_pred True True)
      / real (length (filter (\<lambda>a. a = True) y_true))"
  from True have nc: "normalized_confusion NormTrue y_true y_pred = Inr (tn, fp, fn, tp)"
    unfolding tn_def fp_def fn_def tp_def
    using normalized_confusion_both_classes [OF assms] by simp
  have cpos: "0 < real (length (filter (\<lambda>a. a = True) y_true))"
      "0 < real (length (filter (\<lambda>a. a = False) y_true))"
    using True filter_eq_pos [of True y_true] filter_eq_pos [of False y_true] by auto
  have sum1: "tp + fn = 1"
    unfolding tp_def fn_def
    using true_row_sums_to_one [OF assms, of True] True by (simp add: add.commute)
  have nonneg: "0 \<le> tp" "0 \<le> fp"
    unfolding tp_def fp_def by simp_all
  have tp0: "tp = 0 \<longleftrightarrow> (True, True) \<notin> set (zip y_true y_pred)"
    unfolding tp_def using cpos(1) count_pairs_zero [of y_true y_pred True True] by simp
  have sum0: "tp + fp = 0 \<longleftrightarrow> True \<notin> set y_pred"
  proof -
    have "tp + fp = 0 \<longleftrightarrow> tp = 0 \<and> fp = 0"
      using nonneg by (simp add: add_nonneg_eq_0_iff)
    also have "\<dots> \<longleftrightarrow> count_pairs y_true y_pred False True = 0
        \<and> count_pairs y_true y_pred True True = 0"
      unfolding tp_def fp_def using cpos by auto
    also have "\<dots> \<longleftrightarrow> True \<notin> set y_pred"
      by (rule pred_column_entries [OF assms])
    finally show ?thesis .
  qed
  note ds = derived_scores [OF nonneg sum1]
  have scores: "imag_clf_scores NormTrue y_true y_pred =
      Inr \<lparr>prec_imag_freq = (if tp + fp = 0 then NaN else Fin (tp / (tp + fp))),
           recall_imag_freq = Fin tp,
           f1_imag_freq = (if tp = 0 then NaN
                           else Fin (2 * (tp / (tp + fp) * tp) / (tp / (tp + fp) + tp))),
           acc_imag_freq = accuracy_score y_true y_pred,
           fpr_imag_freq = fp, fnr_imag_freq = fn\<rparr>"
  proof -
    have "imag_clf_scores NormTrue y_true y_pred =
      Inr \<lparr>prec_imag_freq = np_div (Fin tp) (Fin (tp + fp)),
           recall_imag_freq = np_div (Fin tp) (Fin (tp + fn)),
           f1_imag_freq =
             np_div (np_mul (Fin 2)
                       (np_mul (np_div (Fin tp) (Fin (tp + fp))) (np_div (Fin tp) (Fin (tp + fn)))))
               (np_add (np_div (Fin tp) (Fin (tp + fp))) (np_div (Fin tp) (Fin (tp + fn)))),
           acc_imag_freq = accuracy_score y_true y_pred,
           fpr_imag_freq = fp, fnr_imag_freq = fn\<rparr>"
      by (simp add: imag_clf_scores_def nc Let_def
          del: np_div.simps np_mul.simps np_add.simps)
    then show ?thesis by (simp only: ds)
  qed
  have "\<exists>s tp fp.
          imag_clf_scores NormTrue y_true y_pred = Inr s
        \<and> tp = real (count_pairs y_true y_pred True True)
               / real (length (filter (\<lambda>a. a = True) y_true))
        \<and> fp = real (count_pairs y_true y_pred False True)
               / real (length (filter (\<lambda>a. a = False) y_true))
        \<and> prec_imag_freq s = (if True \<in> set y_pred then Fin (tp / (tp + fp)) else NaN)
        \<and> recall_imag_freq s = Fin tp
        \<and> f1_imag_freq s =
            (if (True, True) \<in> set (zip y_true y_pred)
             then Fin (2 * (tp / (tp + fp) * tp) / (tp / (tp + fp) + tp)) else NaN)"
  proof (intro exI conjI)
    show "imag_clf_scores NormTrue y_true y_pred =
      Inr \<lparr>prec_imag_freq = (if tp + fp = 0 then NaN else Fin (tp / (tp + fp))),
           recall_imag_freq = Fin tp,
           f1_imag_freq = (if tp = 0 then NaN
                           else Fin (2 * (tp / (tp + fp) * tp) / (tp / (tp + fp) + tp))),
           acc_imag_freq = accuracy_score y_true y_pred,
           fpr_imag_freq = fp, fnr_imag_freq = fn\<rparr>"
      by (rule scores)
    show "tp = real (count_pairs y_true y_pred True True)
               / real (length (filter (\<lambda>a. a = True) y_true))"
      by (rule tp_def)
    show "fp = real (count_pairs y_true y_pred False True)
               / real (length (filter (\<lambda>a. a = False) y_true))"
      by (rule fp_def)
  qed (simp_all add: tp0 sum0)
  with True show ?thesis by (simp only: simp_thms if_True)
next
  case False
  with normalized_confusion_missing_class [OF assms] show ?thesis
    by (simp add: imag_clf_scores_def)
qed

theorem undefined_scores_are_nan_witness:
  "(\<exists>s. imag_clf_scores NormTrue [True, False, True] [False, False, False] = Inr s
        \<and> prec_imag_freq s = NaN \<and> recall_imag_freq s = Fin 0 \<and> f1_imag_freq s = NaN)
   \<and> (\<exists>s. imag_clf_scores NormTrue [True, False, True] [False, True, True] = Inr s
        \<and> prec_imag_freq s = Fin (1 / 3) \<and> recall_imag_freq s = Fin (1 / 2)
        \<and> f1_imag_freq s = Fin (2 / 5))
   \<and> (\<exists>e. imag_clf_scores NormTrue [True, True] [True, True] = Inl e)"
proof -
  have never_positive:
    "\<exists>s. imag_clf_scores NormTrue [True, False, True] [False, False, False] = Inr s
        \<and> prec_imag_freq s = NaN \<and> recall_imag_freq s = Fin 0 \<and> f1_imag_freq s = NaN"
    using undefined_scores_are_nan [of "[True, False, True]" "[False, False, False]"]
    by (auto simp: count_pairs_def)
  have mixed:
    "\<exists>s. imag_clf_scores NormTrue [True, False, True] [False, True, True] = Inr s
        \<and> prec_imag_freq s = Fin (1 / 3) \<and> recall_imag_freq s = Fin (1 / 2)
        \<and> f1_imag_freq s = Fin (2 / 5)"
    by (simp add: imag_clf_scores_def normalized_confusion_def confusion_matrix_def
      normalize_cm_def raw_confusion_def unique_labels_def count_pairs_def divide_entries_def
      sums_to_one_def signed_inf_def accuracy_score_def)
  have one_class: "\<exists>e. imag_clf_scores NormTrue [True, True] [True, True] = Inl e"
    using undefined_scores_are_nan [of "[True, True]" "[True, True]"] by simp
  from never_positive mixed one_class show ?thesis by simp
qed

text \<open>
  C3, as stated, fails: for the reference \<open>[True, True]\<close> and the model \<open>[False, False]\<close> the
  row of the label \<open>False\<close> has no sample; the matrix holds zeros there, not a marker, and
  the script then raises \<open>AssertionError\<close>.
\<close>

theorem empty_true_row_is_zero_and_raises:
  "confusion_matrix NormTrue [True, True] [False, False] = Inr [[0, 0], [1, 0]]
   \<and> normalized_confusion NormTrue [True, True] [False, False] = Inl AssertionError"
  by (simp add: normalized_confusion_def confusion_matrix_def
      normalize_cm_def raw_confusion_def unique_labels_def count_pairs_def divide_entries_def
      sums_to_one_def signed_inf_def)

text \<open>
  C3, amended. For vectors of one length in which both labels occur, normalising by true row
  gives a 2 by 2 matrix: the row of a label with at least one reference sample sums to 1,
  and the row of a label with none is zero. The script accepts the matrix when both rows
  sum to 1 and raises \<open>AssertionError\<close> when one is zero. When the two vectors hold one
  label between them (or nothing), the matrix is smaller and unpacking it raises
  \<open>ValueError\<close>.
\<close>

theorem by_true_row_normalization:
  assumes "length y_true = length y_pred"
  shows "if False \<in> set y_true \<union> set y_pred \<and> True \<in> set y_true \<union> set y_pred
         then \<exists>tn fp fn tp.
                confusion_matrix NormTrue y_true y_pred = Inr [[tn, fp], [fn, tp]]
              \<and> (if False \<in> set y_true then tn + fp = 1 else tn = 0 \<and> fp = 0)
              \<and> (if True \<in> set y_true then fn + tp = 1 else fn = 0 \<and> tp = 0)
              \<and> normalized_confusion NormTrue y_true y_pred =
                  (if False \<in> set y_true \<and> True \<in> set y_true then Inr (tn, fp, fn, tp)
                   else Inl AssertionError)
         else normalized_confusion NormTrue y_true y_pred = Inl ValueError"
proof (cases "False \<in> set y_true \<union> set y_pred \<and> True \<in> set y_true \<union> set y_pred")
  case True
  note cm = confusion_true_rows [OF assms True [THEN conjunct1] True [THEN conjunct2]]
  note one = true_row_sums_to_one [OF assms]
  show ?thesis
  proof (cases "False \<in> set y_true"; cases "True \<in> set y_true")
    assume "False \<in> set y_true" "True \<in> set y_true"
    with True cm one [of False] one [of True] show ?thesis
      by (simp add: normalized_confusion_def sums_to_one_def)
  next
    assume "False \<in> set y_true" "True \<notin> set y_true"
    with True cm one [of False] show ?thesis
      by (simp add: normalized_confusion_def sums_to_one_def)
  next
    assume "False \<notin> set y_true" "True \<in> set y_true"
    with True cm one [of True] show ?thesis
      by (simp add: normalized_confusion_def sums_to_one_def)
  next
    assume "False \<notin> set y_true" "True \<notin> set y_true"
    with True cm show ?thesis
      by (simp add: normalized_confusion_def sums_to_one_def)
  qed
next
  case False
  then have miss: "\<not> (False \<in> set y_true \<and> True \<in> set y_true)" by auto
  have "normalized_confusion NormTrue y_true y_pred = Inl ValueError"
    using normalized_confusion_missing_class [OF assms miss] by (simp only: if_not_P [OF False])
  then show ?thesis by (simp only: if_not_P [OF False])
qed

theorem by_true_row_normalization_witness:
  "confusion_matrix NormTrue [True, False, True, False] [False, False, True, True]
     = Inr [[1 / 2, 1 / 2], [1 / 2, 1 / 2]]
   \<and> normalized_confusion NormTrue [True, False, True, False] [False, False, True, True]
     = Inr (1 / 2, 1 / 2, 1 / 2, 1 / 2)
   \<and> normalized_confusion NormTrue [False, False] [True, False] = Inl AssertionError
   \<and> normalized_confusion NormTrue [True] [True] = Inl ValueError"
  using by_true_row_normalization [of "[True, False, True, False]" "[False, False, True, True]"]
    by_true_row_normalization [of "[False, False]" "[True, False]"]
    by_true_row_normalization [of "[True]" "[True]"]
  by (simp add: normalized_confusion_def confusion_matrix_def
      normalize_cm_def raw_confusion_def unique_labels_def count_pairs_def divide_entries_def
      sums_to_one_def signed_inf_def)

section \<open>Properties of the regression metrics\<close>

subsection \<open>Alignment and the rows without \<open>NaN\<close>\<close>

lemma dropna_append: "dropna (xs @ ys) = dropna xs @ dropna ys"
  by (simp add: dropna_def)

lemma dropna_all_nan: "\<forall>kv \<in> set s. snd kv = None \<Longrightarrow> dropna s = []"
  by (induction s) (auto simp: dropna_def)

lemma series_get_distinct:
  assumes "distinct (map fst s)" "(k, v) \<in> set s"
  shows "series_get s k = v"
proof -
  from assms have "map_of s k = Some v" by simp
  then show ?thesis by (cases v) (simp_all add: series_get_def)
qed

lemma series_get_absent:
  assumes "k \<notin> set (map fst s)"
  shows "series_get s k = None"
proof -
  from assms have "map_of s k = None" by (simp add: map_of_eq_None_iff)
  then show ?thesis by (simp add: series_get_def)
qed

lemma series_get_Some: "series_get s k = Some x \<longleftrightarrow> map_of s k = Some (Some x)"
  by (auto simp: series_get_def split: option.splits)

lemma dropna_aligned:
  "dropna (map (\<lambda>kv. (fst kv, case (snd kv, series_get b (fst kv)) of
                                  (Some x, Some y) \<Rightarrow> Some (x - y)
                                | _ \<Rightarrow> None)) l)
   = map (\<lambda>kxy. (fst kxy, fst (snd kxy) - snd (snd kxy)))
       (concat (map (\<lambda>kv. case (snd kv, series_get b (fst kv)) of
                             (Some x, Some y) \<Rightarrow> [(fst kv, x, y)]
                           | _ \<Rightarrow> []) l))"
  by (induction l) (auto simp: dropna_def split: option.splits)


lemma dropna_series_sub:
  assumes "distinct (map fst a)"
  shows "dropna (series_sub a b)
           = map (\<lambda>kxy. (fst kxy, fst (snd kxy) - snd (snd kxy))) (present_in_both a b)"
proof -
  let ?f = "\<lambda>k. (k, case (series_get a k, series_get b k) of
                       (Some x, Some y) \<Rightarrow> Some (x - y)
                     | _ \<Rightarrow> None)"
  let ?g = "\<lambda>kv. (fst kv, case (snd kv, series_get b (fst kv)) of
                              (Some x, Some y) \<Rightarrow> Some (x - y)
                            | _ \<Rightarrow> None)"
  have "?f (fst kv) = ?g kv" if "kv \<in> set a" for kv
  proof -
    from that have "(fst kv, snd kv) \<in> set a" by simp
    from series_get_distinct [OF assms this] show ?thesis by simp
  qed
  then have left: "map ?f (map fst a) = map ?g a"
    by (simp add: comp_def)
  have "snd kv = None" if "kv \<in> set (map ?f (filter (\<lambda>k. k \<notin> set (map fst a)) (map fst b)))"
    for kv
  proof -
    from that obtain k where "k \<notin> set (map fst a)" and kv: "kv = ?f k" by auto
    from series_get_absent [OF this(1)] kv show ?thesis by simp
  qed
  then have right: "dropna (map ?f (filter (\<lambda>k. k \<notin> set (map fst a)) (map fst b))) = []"
    by (intro dropna_all_nan) blast
  have "dropna (series_sub a b) = dropna (map ?g a)"
    unfolding series_sub_def map_append dropna_append left right by simp
  then show ?thesis
    unfolding present_in_both_def by (simp only: dropna_aligned)
qed

lemma dropna_series_abs:
  "dropna (series_abs s) = map (\<lambda>kx. (fst kx, \<bar>snd kx\<bar>)) (dropna s)"
  by (induction s) (auto simp: dropna_def series_abs_def split: option.splits)

lemma series_loc_values:
  "\<forall>t \<in> set ts. map_of s (fst t) = Some (g t) \<Longrightarrow> series_loc s (map fst ts) = Inr (map g ts)"
  by (induction ts) auto

subsection \<open>The materials with a value on both sides\<close>

lemma in_present_in_both:
  "(k, x, y) \<in> set (present_in_both a b) \<longleftrightarrow> (k, Some x) \<in> set a \<and> series_get b k = Some y"
proof (induction a)
  case Nil
  show ?case by (simp add: present_in_both_def)
next
  case (Cons kv a)
  obtain k' v where kv: "kv = (k', v)" by (cases kv)
  have step: "present_in_both (kv # a) b =
      (case (v, series_get b k') of (Some x, Some y) \<Rightarrow> [(k', x, y)] | _ \<Rightarrow> [])
      @ present_in_both a b"
    by (simp add: present_in_both_def kv split: option.splits)
  show ?case
  proof (cases v)
    case None
    with Cons.IH step kv show ?thesis by simp
  next
    case (Some x')
    show ?thesis
    proof (cases "series_get b k'")
      case None
      with Cons.IH step kv Some show ?thesis by auto
    next
      case (Some y')
      with Cons.IH step kv \<open>v = Some x'\<close> show ?thesis by auto
    qed
  qed
qed

lemma present_in_both_values:
  assumes "distinct (map fst a)" and "(k, x, y) \<in> set (present_in_both a b)"
  shows "map_of a k = Some (Some x) \<and> map_of b k = Some (Some y)"
proof -
  from assms(2) have "(k, Some x) \<in> set a" and "series_get b k = Some y"
    by (simp_all add: in_present_in_both)
  with assms(1) show ?thesis by (simp add: series_get_Some)
qed

lemma present_in_both_set:
  assumes "distinct (map fst a)"
  shows "set (present_in_both a b)
           = {(k, x, y). map_of a k = Some (Some x) \<and> map_of b k = Some (Some y)}"
proof (intro set_eqI iffI)
  fix t assume "t \<in> set (present_in_both a b)"
  moreover obtain k x y where "t = (k, x, y)" by (cases t)
  ultimately show "t \<in> {(k, x, y). map_of a k = Some (Some x) \<and> map_of b k = Some (Some y)}"
    using present_in_both_values [OF assms, of k x y b] by simp
next
  fix t assume t: "t \<in> {(k, x, y). map_of a k = Some (Some x) \<and> map_of b k = Some (Some y)}"
  obtain k x y where kxy: "t = (k, x, y)" by (cases t)
  with t have "map_of a k = Some (Some x)" "map_of b k = Some (Some y)" by simp_all
  then have "(k, Some x) \<in> set a" "series_get b k = Some y"
    by (simp_all add: map_of_SomeD series_get_Some)
  then show "t \<in> set (present_in_both a b)" by (simp add: kxy in_present_in_both)
qed


text \<open>
  C4. For two Series with distinct labels, the comparison runs over exactly the materials
  that have a value (not \<open>NaN\<close>) in both: the MAE is the mean of \<open>|reference - model|\<close> over
  them, and \<open>r2_score\<close> receives their reference and model values and nothing else. A
  material missing on one side changes neither. With no common material \<open>r2_score\<close> raises.
\<close>

theorem regression_over_common_materials:
  assumes "distinct (map fst ref)" and "distinct (map fst model)"
  shows "set (present_in_both ref model)
           = {(k, x, y). map_of ref k = Some (Some x) \<and> map_of model k = Some (Some y)}
       \<and> freq_regression ref model =
           (let both = present_in_both ref model
            in case r2_score (map (\<lambda>t. Some (fst (snd t))) both)
                      (map (\<lambda>t. Some (snd (snd t))) both) of
                 Inl e \<Rightarrow> Inl e
               | Inr r2 \<Rightarrow>
                   Inr (Fin (sum_list (map (\<lambda>t. \<bar>fst (snd t) - snd (snd t)\<bar>) both)
                             / real (length both)),
                        r2))"
proof -
  let ?both = "present_in_both ref model"
  have diff: "dropna (series_sub ref model)
      = map (\<lambda>kxy. (fst kxy, fst (snd kxy) - snd (snd kxy))) ?both"
    by (rule dropna_series_sub [OF assms(1)])
  have not_nan: "map fst (dropna (series_sub ref model)) = map fst ?both"
    unfolding diff by (simp add: comp_def)
  have mae: "series_mean (series_abs (series_sub ref model))
      = (if ?both = [] then NaN
         else Fin (sum_list (map (\<lambda>t. \<bar>fst (snd t) - snd (snd t)\<bar>) ?both)
                   / real (length ?both)))"
    unfolding series_mean_def dropna_series_abs diff Let_def by (simp add: comp_def)
  have vals: "map_of ref (fst t) = Some (Some (fst (snd t)))
      \<and> map_of model (fst t) = Some (Some (snd (snd t)))" if "t \<in> set ?both" for t
  proof -
    obtain k x y where t: "t = (k, x, y)" by (cases t)
    with that present_in_both_values [OF assms(1), of k x y model] show ?thesis by simp
  qed
  have t: "series_loc ref (map fst ?both) = Inr (map (\<lambda>t. Some (fst (snd t))) ?both)"
    by (rule series_loc_values) (simp add: vals)
  have p: "series_loc model (map fst ?both) = Inr (map (\<lambda>t. Some (snd (snd t))) ?both)"
    by (rule series_loc_values) (simp add: vals)
  have empty: "r2_score [] [] = Inl ValueError" by (simp add: r2_score_def)
  have "freq_regression ref model =
      (let both = ?both
       in case r2_score (map (\<lambda>t. Some (fst (snd t))) both)
                 (map (\<lambda>t. Some (snd (snd t))) both) of
            Inl e \<Rightarrow> Inl e
          | Inr r2 \<Rightarrow>
              Inr (Fin (sum_list (map (\<lambda>t. \<bar>fst (snd t) - snd (snd t)\<bar>) both)
                        / real (length both)),
                   r2))"
  proof (cases "?both = []")
    case True
    have "freq_regression ref model = Inl ValueError"
      unfolding freq_regression_def Let_def not_nan by (simp add: True empty)
    then show ?thesis by (simp add: True empty)
  next
    case False
    have "freq_regression ref model =
        (case r2_score (map (\<lambda>t. Some (fst (snd t))) ?both)
                 (map (\<lambda>t. Some (snd (snd t))) ?both) of
           Inl e \<Rightarrow> Inl e
         | Inr r2 \<Rightarrow> Inr (series_mean (series_abs (series_sub ref model)), r2))"
      unfolding freq_regression_def Let_def not_nan t p by simp
    then show ?thesis unfolding mae Let_def by (simp only: False if_False)
  qed
  with present_in_both_set [OF assms(1)] show ?thesis by simp
qed

theorem regression_over_common_materials_witness:
  "present_in_both dft_max_freq model_max_freq
     = [(''mp-1'', 1, 3 / 2), (''mp-2'', 2, 2), (''mp-3'', 3, 2)]
   \<and> freq_regression dft_max_freq model_max_freq = Inr (Fin (1 / 2), Fin (3 / 8))
   \<and> freq_regression (take 3 dft_max_freq) (take 3 model_max_freq)
       = Inr (Fin (1 / 2), Fin (3 / 8))"
proof -
  have both: "present_in_both dft_max_freq model_max_freq
      = [(''mp-1'', 1, 3 / 2), (''mp-2'', 2, 2), (''mp-3'', 3, 2)]"
    by (simp add: present_in_both_def dft_max_freq_def model_max_freq_def series_get_def)
  have both3: "present_in_both (take 3 dft_max_freq) (take 3 model_max_freq)
      = [(''mp-1'', 1, 3 / 2), (''mp-2'', 2, 2), (''mp-3'', 3, 2)]"
    by (simp add: present_in_both_def dft_max_freq_def model_max_freq_def series_get_def)
  have r2: "r2_score [Some 1, Some 2, Some 3] [Some (3 / 2), Some 2, Some 2] = Inr (Fin (3 / 8))"
    by (simp add: r2_score_def Let_def power2_eq_square)
  have d: "distinct (map fst dft_max_freq)" "distinct (map fst model_max_freq)"
      "distinct (map fst (take 3 dft_max_freq))" "distinct (map fst (take 3 model_max_freq))"
    by (simp_all add: dft_max_freq_def model_max_freq_def)
  from regression_over_common_materials [OF d(1,2), THEN conjunct2]
  have full: "freq_regression dft_max_freq model_max_freq = Inr (Fin (1 / 2), Fin (3 / 8))"
    by (simp add: both r2 Let_def)
  from regression_over_common_materials [OF d(3,4), THEN conjunct2]
  have three: "freq_regression (take 3 dft_max_freq) (take 3 model_max_freq)
      = Inr (Fin (1 / 2), Fin (3 / 8))"
    by (simp add: both3 r2 Let_def)
  from both full three show ?thesis by simp
qed

section \<open>Properties of the export of material ids\<close>

lemma sort_keys_Inr: "sort_keys ids = Inr ks \<longleftrightarrow> map sort_key_of ids = map Inr ks"
proof (induction ids arbitrary: ks)
  case Nil
  show ?case by auto
next
  case (Cons i ids)
  show ?case
  proof (cases "sort_key_of i")
    case (Inl e)
    then show ?thesis by (cases ks) auto
  next
    case (Inr k)
    show ?thesis
    proof (cases "sort_keys ids")
      case (Inl e)
      with Cons.IH Inr show ?thesis by (cases ks) auto
    next
      case inner: (Inr ks')
      with Cons.IH Inr show ?thesis by (cases ks) auto
    qed
  qed
qed

lemma zip_keys:
  assumes "map f xs = map Inr ks" and "(k, x) \<in> set (zip ks xs)"
  shows "f x = Inr k"
proof -
  from assms(2) obtain i where i: "i < length ks" "i < length xs" "ks ! i = k" "xs ! i = x"
    by (auto simp: in_set_zip)
  from assms(1) have "map f xs ! i = map Inr ks ! i" by simp
  with i show ?thesis by simp
qed

lemma sort_index_Inr:
  assumes "sort_index rows0 = Inr rows"
  shows "\<exists>ks. sort_keys (map fst rows) = Inr ks \<and> sorted ks"
    and "set rows = set rows0" and "length rows = length rows0"
proof -
  from assms obtain ks0 where ks0: "sort_keys (map fst rows0) = Inr ks0"
      and rows: "rows = map snd (sort_key fst (zip ks0 rows0))"
    by (auto simp: sort_index_def split: sum.splits)
  from ks0 have keys: "map sort_key_of (map fst rows0) = map Inr ks0"
    by (simp add: sort_keys_Inr)
  then have len: "length ks0 = length rows0"
    by (metis length_map)
  let ?sorted = "sort_key fst (zip ks0 rows0)"
  have "sort_key_of (fst (snd kr)) = Inr (fst kr)" if "kr \<in> set ?sorted" for kr
  proof -
    from that have "(fst kr, snd kr) \<in> set (zip ks0 rows0)" by simp
    from zip_keys [of "\<lambda>r. sort_key_of (fst r)" rows0 ks0, OF _ this] keys
    show ?thesis by (simp add: comp_def)
  qed
  then have "map sort_key_of (map fst rows) = map Inr (map fst ?sorted)"
    unfolding rows by simp
  then have "sort_keys (map fst rows) = Inr (map fst ?sorted)"
    by (simp add: sort_keys_Inr)
  moreover have "sorted (map fst ?sorted)" by (rule sorted_sort_key)
  ultimately show "\<exists>ks. sort_keys (map fst rows) = Inr ks \<and> sorted ks" by blast
  have "set rows = snd ` set (zip ks0 rows0)" unfolding rows by simp
  also have "\<dots> = set rows0" using len by (metis map_snd_zip set_map)
  finally show "set rows = set rows0" .
  show "length rows = length rows0" unfolding rows using len by simp
qed

lemma filter_key_unique:
  "distinct (map f xs) \<Longrightarrow> filter (\<lambda>x. f x = k) xs = [] \<or> (\<exists>x. filter (\<lambda>x. f x = k) xs = [x])"
proof (induction xs)
  case Nil
  show ?case by simp
next
  case (Cons a xs)
  show ?case
  proof (cases "f a = k")
    case True
    with Cons.prems have "\<forall>x \<in> set xs. f x \<noteq> k" by (auto simp: image_iff)
    then have "filter (\<lambda>x. f x = k) xs = []" by (simp add: filter_empty_conv)
    with True show ?thesis by simp
  next
    case False
    with Cons show ?thesis by simp
  qed
qed

lemma loc_rows_ids:
  assumes "distinct (map idx_mat_id df)" and "loc_rows df ks = Inr rows"
  shows "map idx_mat_id rows = ks \<and> set rows \<subseteq> set df"
  using assms(2)
proof (induction ks arbitrary: rows)
  case Nil
  then show ?case by simp
next
  case (Cons k ks)
  from Cons.prems obtain rest where rest: "loc_rows df ks = Inr rest"
      and rows: "rows = filter (\<lambda>r. idx_mat_id r = k) df @ rest"
      and ne: "filter (\<lambda>r. idx_mat_id r = k) df \<noteq> []"
    by (auto split: list.splits sum.splits)
  from filter_key_unique [OF assms(1), of k] ne obtain r
    where r: "filter (\<lambda>r. idx_mat_id r = k) df = [r]" by auto
  then have "r \<in> set (filter (\<lambda>r. idx_mat_id r = k) df)" by simp
  then have "idx_mat_id r = k" "r \<in> set df" by simp_all
  with Cons.IH [OF rest] rows r show ?case by simp
qed

lemma xs_model_ids:
  assumes "distinct (map (\<lambda>r. (idx_mat_id r, idx_model r)) df)" and "xs_model m df = Inr rs"
  shows "distinct (map idx_mat_id rs) \<and> set rs = {r \<in> set df. idx_model r = m}"
proof -
  from assms(2) have rs: "rs = filter (\<lambda>r. idx_model r = m) df"
    by (auto simp: xs_model_def split: list.splits)
  from assms(1) have "distinct (map idx_mat_id (filter (\<lambda>r. idx_model r = m) df))"
  proof (induction df)
    case Nil
    show ?case by simp
  next
    case (Cons a df)
    then show ?case by (auto simp: image_iff)
  qed
  with rs show ?thesis by auto
qed


text \<open>
  C9. Whenever the export produces a file, its rows are in ascending order of the integer
  that \<open>astype(int)\<close> reads from the second \<open>-\<close>-separated part of the id; the ids are
  exactly those that meet the coverage threshold, each once; and every row holds, after the
  id, the formula, the supercell and the number of sites of that material's PBE row, in this
  order.
\<close>

theorem export_sorted_by_numeric_suffix:
  assumes "export_mp_ids pbe df_summary = Inr rows"
  shows "(\<exists>ks. sort_keys (map fst rows) = Inr ks \<and> sorted ks)
       \<and> distinct (map fst rows)
       \<and> set (map fst rows) = set (idx_n_avail df_summary)
       \<and> (\<forall>row \<in> set rows. \<exists>r \<in> set df_summary.
             idx_model r = pbe
           \<and> row = (idx_mat_id r, col_formula r, col_supercell r, col_n_sites r))"
proof -
  from assms have index: "distinct (map (\<lambda>r. (idx_mat_id r, idx_model r)) df_summary)"
    by (auto simp: export_mp_ids_def split: if_splits)
  with assms obtain df_pbe sel where pbe: "xs_model pbe df_summary = Inr df_pbe"
      and sel: "loc_rows df_pbe (idx_n_avail df_summary) = Inr sel"
      and sorted_rows: "sort_index (map select_columns sel) = Inr rows"
    by (auto simp: export_mp_ids_def split: sum.splits)
  note p = xs_model_ids [OF index pbe]
  note s = loc_rows_ids [OF p [THEN conjunct1] sel]
  note srt = sort_index_Inr [OF sorted_rows]
  have ids0: "map fst (map select_columns sel) = idx_n_avail df_summary"
    using s by (simp add: comp_def select_columns_def)
  have ids: "set (map fst rows) = set (idx_n_avail df_summary)"
  proof -
    have "set (map fst rows) = fst ` set (map select_columns sel)"
      using srt(2) by simp
    also have "\<dots> = set (map fst (map select_columns sel))"
      by (simp only: set_map)
    finally show ?thesis by (simp only: ids0)
  qed
  have "distinct (idx_n_avail df_summary)" by (simp add: idx_n_avail_def)
  then have "card (set (idx_n_avail df_summary)) = length (idx_n_avail df_summary)"
    by (rule distinct_card)
  moreover have "length (idx_n_avail df_summary) = length rows"
    using srt(3) ids0 by (metis length_map)
  ultimately have "card (set (map fst rows)) = length (map fst rows)"
    using ids by simp
  then have dist: "distinct (map fst rows)" by (rule card_distinct)
  have cols: "\<exists>r \<in> set df_summary. idx_model r = pbe
      \<and> row = (idx_mat_id r, col_formula r, col_supercell r, col_n_sites r)"
    if "row \<in> set rows" for row
  proof -
    from that srt(2) obtain r where "r \<in> set sel" and row: "row = select_columns r" by auto
    with s p have "r \<in> set df_summary" "idx_model r = pbe" by auto
    with row show ?thesis by (auto simp: select_columns_def)
  qed
  from srt(1) dist ids cols show ?thesis by blast
qed

theorem export_sorted_by_numeric_suffix_witness:
  "export_mp_ids ''pbe'' df_example =
     Inr [(''mp-3'', ''Si2'', ''2x2x2'', 2), (''mp-20'', ''Si2'', ''2x2x2'', 2),
          (''mp-100'', ''Si2'', ''2x2x2'', 2)]
   \<and> sort_keys [''mp-3'', ''mp-20'', ''mp-100''] = Inr [3, 20, 100]
   \<and> set [''mp-3'', ''mp-20'', ''mp-100''] = set (idx_n_avail df_example)"
proof -
  have keys: "sort_key_of ''mp-3'' = Inr 3" "sort_key_of ''mp-20'' = Inr 20"
      "sort_key_of ''mp-100'' = Inr 100"
    by (simp_all add: sort_key_of_def astype_int_def py_int_def strip_def is_space_def
        unsigned_value_def digit_val_def)
  have avail: "idx_n_avail df_example = [''mp-20'', ''mp-3'', ''mp-100'']"
    by (simp add: idx_n_avail_def df_example_def summary_def)
  have exported: "export_mp_ids ''pbe'' df_example =
     Inr [(''mp-3'', ''Si2'', ''2x2x2'', 2), (''mp-20'', ''Si2'', ''2x2x2'', 2),
          (''mp-100'', ''Si2'', ''2x2x2'', 2)]"
    unfolding export_mp_ids_def avail
    by (simp add: df_example_def summary_def xs_model_def select_columns_def sort_index_def keys)
  from export_sorted_by_numeric_suffix [OF exported] keys exported
  show ?thesis by simp
qed


end
